theory Spec2Isabelle
  imports Complex_Main "HOL-Library.Multiset"
begin

section \<open>Data model of the AudioQuiz component\<close>

text \<open>
  The component \<^verbatim>\<open>AudioQuiz\<close> (src/Component/AudioQuiz.tsx) keeps its state in React
  hooks and refs.  The embedding passes that state explicitly as one record.  JavaScript
  strings are modelled as \<^typ>\<open>string\<close>; the only character the code inspects is the
  full stop.
\<close>

definition MAX_PLAY_SECONDS :: nat where
  "MAX_PLAY_SECONDS = 120"

datatype QuizTrackQuality = mp3_128 | mp3_320 | original

record QuizTrack =
  id_track :: string
  quality :: QuizTrackQuality
  fileName :: string
  url :: string

datatype tone = success | error

text \<open>
  The feedback texts are Japanese sentences.  Each fixed sentence is one constructor; the
  score message built by \<^verbatim>\<open>checkAnswers\<close> keeps the numbers and the per-track lines it
  is assembled from (track count, correct count, detail lines).
\<close>

record detail =
  label :: nat
  actual :: QuizTrackQuality
  guessed :: "QuizTrackQuality option"

datatype message =
    msg_load_ffmpeg_first
  | msg_select_song
  | msg_core_load_failed
  | msg_convert_done nat
  | msg_convert_failed
  | msg_play_failed
  | msg_convert_first
  | msg_select_all_guesses
  | msg_score nat nat "detail list"

record FeedbackState =
  text_msg :: message
  tone :: tone

record File =
  name :: string
  type_file :: string

text \<open>An \<^verbatim>\<open>HTMLAudioElement\<close>, as far as the component reads and writes it.\<close>

record audio =
  paused :: bool
  currentTime :: real

text \<open>The calls made on the transcoding engine, in the order they are issued.\<close>

datatype engine_call =
    WriteFile string
  | Exec "string list"
  | ReadFile string
  | ListDir string
  | DeleteFile string

text \<open>
  The component state.  \<open>ffmpegRef\<close> records whether \<^verbatim>\<open>ffmpegRef.current\<close> is non-null.
  \<open>selectedAnswers\<close> maps a track id to \<open>None\<close> when the key is absent, to
  \<open>Some None\<close> when it holds \<^verbatim>\<open>null\<close>.  \<open>objectUrlsRef\<close> is the \<^verbatim>\<open>Set\<close> of
  locators in insertion order.  The handler tables \<^verbatim>\<open>limitHandlersRef\<close>,
  \<^verbatim>\<open>endedHandlersRef\<close> and \<^verbatim>\<open>audioRefCallbacks\<close> are written together with
  \<open>audioRefs\<close> under the same keys, so the domain of \<open>audioRefs\<close> stands for them.
  The last three fields belong to the hosting environment: the locators handed to
  \<^verbatim>\<open>URL.revokeObjectURL\<close>, the calls issued to the engine, and the number of
  locators \<^verbatim>\<open>URL.createObjectURL\<close> has produced.
\<close>

record state =
  ffmpegRef :: bool
  coreLoaded :: bool
  converting :: bool
  file_input :: "File option"
  tracks :: "QuizTrack list"
  selectedAnswers :: "string \<rightharpoonup> QuizTrackQuality option"
  feedback :: "FeedbackState option"
  playingTrackIdRef :: "string option"
  audioRefs :: "string \<rightharpoonup> audio"
  objectUrlsRef :: "string list"
  revoked :: "string list"
  engineCalls :: "engine_call list"
  urlsCreated :: nat

definition setFeedback :: "message \<Rightarrow> tone \<Rightarrow> state \<Rightarrow> state" where
  "setFeedback m t s = s\<lparr>feedback := Some \<lparr>text_msg = m, tone = t\<rparr>\<rparr>"

section \<open>Base name and extension of the uploaded file\<close>

text \<open>\<^verbatim>\<open>String.prototype.lastIndexOf\<close> for a one-character needle: \<open>-1\<close> when absent.\<close>

fun lastIndexOf_from :: "string \<Rightarrow> char \<Rightarrow> int \<Rightarrow> int \<Rightarrow> int" where
  "lastIndexOf_from [] c i found = found"
| "lastIndexOf_from (x # xs) c i found =
     lastIndexOf_from xs c (i + 1) (if x = c then i else found)"

definition lastIndexOf :: "string \<Rightarrow> char \<Rightarrow> int" where
  "lastIndexOf s c = lastIndexOf_from s c 0 (- 1)"

text \<open>\<^verbatim>\<open>String.prototype.slice(start, end)\<close>: negative indices count from the end.\<close>

definition slice_index :: "nat \<Rightarrow> int \<Rightarrow> nat" where
  "slice_index len i = (if i < 0 then nat (max (int len + i) 0) else min (nat i) len)"

definition slice2 :: "string \<Rightarrow> int \<Rightarrow> int \<Rightarrow> string" where
  "slice2 s start stop =
     (let from = slice_index (length s) start; to = slice_index (length s) stop
      in take (to - from) (drop from s))"

definition slice1 :: "string \<Rightarrow> int \<Rightarrow> string" where
  "slice1 s start = drop (slice_index (length s) start) s"

definition baseFileName :: "File option \<Rightarrow> string" where
  "baseFileName fo =
     (case fo of
        None \<Rightarrow> ''upload''
      | Some f \<Rightarrow>
          (let dotIndex = lastIndexOf (name f) (CHR ''.'')
           in if dotIndex > 0 then slice2 (name f) 0 dotIndex else name f))"

definition originalExtension :: "File option \<Rightarrow> string" where
  "originalExtension fo =
     (case fo of
        None \<Rightarrow> ''orig''
      | Some f \<Rightarrow>
          (let dotIndex = lastIndexOf (name f) (CHR ''.'')
           in if dotIndex > 0 then slice1 (name f) (dotIndex + 1) else ''orig''))"

definition getMimeByQuality :: "QuizTrackQuality \<Rightarrow> string \<Rightarrow> string" where
  "getMimeByQuality q originalType =
     (if q = original then (if originalType \<noteq> [] then originalType else ''audio/mpeg'')
      else ''audio/mpeg'')"

section \<open>Answer evaluation\<close>

text \<open>\<^verbatim>\<open>!selectedAnswers[track.id]\<close>: the entry is absent or \<^verbatim>\<open>null\<close>.\<close>

definition answer_of :: "state \<Rightarrow> QuizTrack \<Rightarrow> QuizTrackQuality option" where
  "answer_of s t = (case selectedAnswers s (id_track t) of None \<Rightarrow> None | Some a \<Rightarrow> a)"

definition unanswered :: "state \<Rightarrow> bool" where
  "unanswered s = list_ex (\<lambda>t. answer_of s t = None) (tracks s)"

text \<open>
  The scoring loop of \<^verbatim>\<open>checkAnswers\<close>, from index \<open>i\<close> on, with the running
  \<^verbatim>\<open>correct\<close> counter and the \<^verbatim>\<open>details\<close> array.
\<close>

fun score_loop ::
  "state \<Rightarrow> QuizTrack list \<Rightarrow> nat \<Rightarrow> nat \<Rightarrow> detail list \<Rightarrow> nat \<times> detail list" where
  "score_loop s [] i correct details = (correct, details)"
| "score_loop s (t # ts) i correct details =
     (let answer = answer_of s t;
          isCorrect = (answer = Some (quality t));
          correct' = (if isCorrect then correct + 1 else correct);
          d = \<lparr>label = i + 1, actual = quality t, guessed = answer\<rparr>
      in score_loop s ts (i + 1) correct' (details @ [d]))"

definition checkAnswers :: "state \<Rightarrow> state" where
  "checkAnswers s =
     (if length (tracks s) = 0 then setFeedback msg_convert_first error s
      else if unanswered s then setFeedback msg_select_all_guesses error s
      else
        (let (correct, details) = score_loop s (tracks s) 0 0 [];
             message = msg_score (length (tracks s)) correct details
         in setFeedback message (if correct = length (tracks s) then success else error) s))"

section \<open>Resource ledger\<close>

text \<open>\<^verbatim>\<open>Set.prototype.add\<close> on the insertion-ordered set of locators.\<close>

definition set_add :: "string \<Rightarrow> string list \<Rightarrow> string list" where
  "set_add u us = (if u \<in> set us then us else us @ [u])"

text \<open>The loop of \<^verbatim>\<open>revokeTrackUrls\<close>: one \<^verbatim>\<open>URL.revokeObjectURL\<close> per member.\<close>

fun revoke_each :: "string list \<Rightarrow> string list \<Rightarrow> string list" where
  "revoke_each [] done = done"
| "revoke_each (u # us) done = revoke_each us (done @ [u])"

definition revokeTrackUrls :: "state \<Rightarrow> state" where
  "revokeTrackUrls s =
     s\<lparr>revoked := revoke_each (objectUrlsRef s) (revoked s), objectUrlsRef := []\<rparr>"

section \<open>Playback\<close>

text \<open>
  \<open>audioRefs\<close> holds one element per mounted track id.  An element that leaves the table
  (\<^verbatim>\<open>resetAudioRefs\<close>, the ref callback called with \<^verbatim>\<open>null\<close> or with a new
  instance) is paused and rewound by the code that drops it, and is not followed further.
\<close>

definition stop_audio :: "audio \<Rightarrow> audio" where
  "stop_audio a = a\<lparr>paused := True, currentTime := 0\<rparr>"

definition resetAudioRefs :: "state \<Rightarrow> state" where
  "resetAudioRefs s = s\<lparr>audioRefs := Map.empty, playingTrackIdRef := None\<rparr>"

text \<open>
  \<^verbatim>\<open>handlePlay\<close>.  \<open>started\<close> says whether \<^verbatim>\<open>target.play()\<close> starts the element
  (its \<^verbatim>\<open>paused\<close> flag becomes false).  When the promise of \<^verbatim>\<open>play()\<close> is
  rejected, its handler runs later: that is \<open>playRejected\<close>.
\<close>

definition handlePlay :: "string \<Rightarrow> bool \<Rightarrow> state \<Rightarrow> state" where
  "handlePlay trackId started s =
     (case audioRefs s trackId of
        None \<Rightarrow> s
      | Some target \<Rightarrow>
          (let isSame = (playingTrackIdRef s = Some trackId);
               refs = (\<lambda>i. case audioRefs s i of
                              None \<Rightarrow> None
                            | Some a \<Rightarrow>
                                if i \<noteq> trackId \<or> isSame then Some (stop_audio a) else Some a)
           in if isSame then s\<lparr>audioRefs := refs, playingTrackIdRef := None\<rparr>
              else
                (let rewound = target\<lparr>currentTime := 0\<rparr>;
                     played = (if started then rewound\<lparr>paused := False\<rparr> else rewound)
                 in s\<lparr>audioRefs := refs(trackId \<mapsto> played),
                      playingTrackIdRef := Some trackId\<rparr>)))"

definition playRejected :: "state \<Rightarrow> state" where
  "playRejected s = setFeedback msg_play_failed error (s\<lparr>playingTrackIdRef := None\<rparr>)"

text \<open>
  The ref callback made by \<^verbatim>\<open>getAudioRef\<close>.  React calls it with a new element on
  mount and with \<^verbatim>\<open>null\<close> on unmount, so \<^verbatim>\<open>previous === instance\<close> is false.
\<close>

definition audioRefCallback :: "string \<Rightarrow> audio option \<Rightarrow> state \<Rightarrow> state" where
  "audioRefCallback trackId instance s =
     (case instance of
        None \<Rightarrow>
          s\<lparr>audioRefs := (audioRefs s)(trackId := None),
            playingTrackIdRef :=
              (if playingTrackIdRef s = Some trackId then None else playingTrackIdRef s)\<rparr>
      | Some inst \<Rightarrow> s\<lparr>audioRefs := (audioRefs s)(trackId \<mapsto> inst)\<rparr>)"

definition limitHandler :: "string \<Rightarrow> state \<Rightarrow> state" where
  "limitHandler trackId s =
     (case audioRefs s trackId of
        None \<Rightarrow> s
      | Some instance \<Rightarrow>
          if currentTime instance \<ge> real MAX_PLAY_SECONDS then
            s\<lparr>audioRefs := (audioRefs s)(trackId \<mapsto> stop_audio instance),
              playingTrackIdRef :=
                (if playingTrackIdRef s = Some trackId then None else playingTrackIdRef s)\<rparr>
          else s)"

definition endedHandler :: "string \<Rightarrow> state \<Rightarrow> state" where
  "endedHandler trackId s =
     (case audioRefs s trackId of
        None \<Rightarrow> s
      | Some instance \<Rightarrow>
          s\<lparr>audioRefs := (audioRefs s)(trackId \<mapsto> instance\<lparr>currentTime := 0\<rparr>),
            playingTrackIdRef :=
              (if playingTrackIdRef s = Some trackId then None else playingTrackIdRef s)\<rparr>)"

text \<open>
  What the browser does to an element before it fires an event: playback has moved the
  position to \<open>t\<close> (\<^verbatim>\<open>timeupdate\<close>); playback has reached the end and the element is
  paused (\<^verbatim>\<open>ended\<close>).
\<close>

definition advance :: "string \<Rightarrow> real \<Rightarrow> state \<Rightarrow> state" where
  "advance trackId t s =
     (case audioRefs s trackId of
        None \<Rightarrow> s
      | Some a \<Rightarrow> s\<lparr>audioRefs := (audioRefs s)(trackId \<mapsto> a\<lparr>currentTime := t\<rparr>)\<rparr>)"

definition finish :: "string \<Rightarrow> state \<Rightarrow> state" where
  "finish trackId s =
     (case audioRefs s trackId of
        None \<Rightarrow> s
      | Some a \<Rightarrow> s\<lparr>audioRefs := (audioRefs s)(trackId \<mapsto> a\<lparr>paused := True\<rparr>)\<rparr>)"

definition fresh_audio :: audio where
  "fresh_audio = \<lparr>paused = True, currentTime = 0\<rparr>"

datatype event =
    Play string bool
  | PlayRejected
  | TimeUpdate string real
  | Ended string
  | Mount string
  | Unmount string
  | ResetAll

fun step :: "state \<Rightarrow> event \<Rightarrow> state" where
  "step s (Play trackId started) = handlePlay trackId started s"
| "step s PlayRejected = playRejected s"
| "step s (TimeUpdate trackId t) = limitHandler trackId (advance trackId t s)"
| "step s (Ended trackId) = endedHandler trackId (finish trackId s)"
| "step s (Mount trackId) = audioRefCallback trackId (Some fresh_audio) s"
| "step s (Unmount trackId) = audioRefCallback trackId None s"
| "step s ResetAll = resetAudioRefs s"

definition run :: "state \<Rightarrow> event list \<Rightarrow> state" where
  "run s es = foldl step s es"

definition unpaused :: "state \<Rightarrow> string \<Rightarrow> bool" where
  "unpaused s i = (case audioRefs s i of None \<Rightarrow> False | Some a \<Rightarrow> \<not> paused a)"

definition at_most_one_unpaused :: "state \<Rightarrow> bool" where
  "at_most_one_unpaused s = (\<forall>i j. unpaused s i \<and> unpaused s j \<longrightarrow> i = j)"

section \<open>Transcoding\<close>

text \<open>
  The collaborators of \<^verbatim>\<open>handleConvert\<close> are parameters: the clock, whether each
  engine call resolves or throws, the locator \<^verbatim>\<open>URL.createObjectURL\<close> returns for
  the \<open>n\<close>-th blob, the directory listing, and the order \<^verbatim>\<open>Array.prototype.sort\<close>
  leaves the tracks in under the random comparator of \<^verbatim>\<open>shuffle\<close>.  Within one run
  every engine call has its own arguments, so a result that depends on the arguments
  alone loses nothing.  \<open>exec\<close> is \<open>None\<close> when the promise of \<^verbatim>\<open>ffmpeg.exec\<close>
  rejects, and otherwise the exit code the promise resolves with; \<^verbatim>\<open>handleConvert\<close>
  awaits the promise and discards the code.  \<open>readFile\<close> is false when reading the
  output back throws.
\<close>

record env =
  date_now :: nat
  fetchFile :: bool
  writeFile :: "string \<Rightarrow> bool"
  exec :: "string list \<Rightarrow> int option"
  readFile :: "string \<Rightarrow> bool"
  createObjectURL :: "nat \<Rightarrow> string"
  listDir :: "string list option"
  sort_random :: "QuizTrack list \<Rightarrow> QuizTrack list"

text \<open>Decimal digits of a number, as a template literal or \<^verbatim>\<open>String(n)\<close> prints it.\<close>

function string_of_nat :: "nat \<Rightarrow> string" where
  "string_of_nat n =
     (if n < 10 then [char_of (48 + n)]
      else string_of_nat (n div 10) @ [char_of (48 + n mod 10)])"
  by pat_completeness auto
termination
  by (relation "measure (\<lambda>n. n)") auto

declare string_of_nat.simps [simp del]

fun quality_name :: "QuizTrackQuality \<Rightarrow> string" where
  "quality_name mp3_128 = ''mp3_128''"
| "quality_name mp3_320 = ''mp3_320''"
| "quality_name original = ''original''"

definition createTrackId :: "string \<Rightarrow> QuizTrackQuality \<Rightarrow> string" where
  "createTrackId base q = base @ ''-'' @ quality_name q"

definition shuffle :: "env \<Rightarrow> QuizTrack list \<Rightarrow> QuizTrack list" where
  "shuffle e items = sort_random e items"

record plan =
  plan_quality :: QuizTrackQuality
  outputName :: string
  command :: "string list"
  mime :: string

definition outputPlans :: "string \<Rightarrow> string \<Rightarrow> File \<Rightarrow> plan list" where
  "outputPlans baseIdentifier inputName f =
     [\<lparr>plan_quality = mp3_128,
       outputName = baseIdentifier @ ''_128.mp3'',
       command = [''-i'', inputName, ''-t'', string_of_nat MAX_PLAY_SECONDS,
                  ''-c:a'', ''libmp3lame'', ''-b:a'', ''128k''],
       mime = getMimeByQuality mp3_128 (type_file f)\<rparr>,
      \<lparr>plan_quality = mp3_320,
       outputName = baseIdentifier @ ''_320.mp3'',
       command = [''-i'', inputName, ''-t'', string_of_nat MAX_PLAY_SECONDS,
                  ''-c:a'', ''libmp3lame'', ''-b:a'', ''320k''],
       mime = getMimeByQuality mp3_320 (type_file f)\<rparr>,
      \<lparr>plan_quality = original,
       outputName = baseIdentifier @ ''_original.'' @ originalExtension (Some f),
       command = [''-i'', inputName, ''-t'', string_of_nat MAX_PLAY_SECONDS,
                  ''-c'', ''copy''],
       mime = getMimeByQuality original (type_file f)\<rparr>]"

definition engine_call :: "engine_call \<Rightarrow> state \<Rightarrow> state" where
  "engine_call c s = s\<lparr>engineCalls := engineCalls s @ [c]\<rparr>"

text \<open>
  The loop over the plans.  The result is \<open>None\<close> when a step throws, which leaves the
  loop; \<open>preparedTracks\<close> is the array built so far.
\<close>

fun run_plans ::
  "env \<Rightarrow> string \<Rightarrow> plan list \<Rightarrow> QuizTrack list \<Rightarrow> state \<Rightarrow> QuizTrack list option \<times> state" where
  "run_plans e baseIdentifier [] preparedTracks s = (Some preparedTracks, s)"
| "run_plans e baseIdentifier (p # ps) preparedTracks s =
     (let args = command p @ [outputName p];
          s1 = engine_call (Exec args) s
      in if exec e args = None then (None, s1)
         else
           (let s2 = engine_call (ReadFile (outputName p)) s1
            in if \<not> readFile e (outputName p) then (None, s2)
               else
                 (let u = createObjectURL e (urlsCreated s2);
                      s3 = s2\<lparr>urlsCreated := urlsCreated s2 + 1,
                              objectUrlsRef := set_add u (objectUrlsRef s2)\<rparr>;
                      t = \<lparr>id_track = createTrackId baseIdentifier (plan_quality p),
                           quality = plan_quality p,
                           fileName = outputName p,
                           url = u\<rparr>
                  in run_plans e baseIdentifier ps (preparedTracks @ [t]) s3)))"

fun initial_answers ::
  "QuizTrack list \<Rightarrow> (string \<rightharpoonup> QuizTrackQuality option) \<Rightarrow> (string \<rightharpoonup> QuizTrackQuality option)" where
  "initial_answers [] m = m"
| "initial_answers (t # ts) m = initial_answers ts (m(id_track t \<mapsto> None))"

text \<open>The body of the \<^verbatim>\<open>try\<close> block; the flag is false when it throws.\<close>

definition convert_try :: "env \<Rightarrow> File \<Rightarrow> string \<Rightarrow> state \<Rightarrow> bool \<times> state" where
  "convert_try e f baseIdentifier s =
     (let inputName = baseIdentifier @ ''_input.'' @ originalExtension (Some f)
      in if \<not> fetchFile e then (False, s)
         else
           (let s1 = engine_call (WriteFile inputName) s
            in if \<not> writeFile e inputName then (False, s1)
               else
                 (case run_plans e baseIdentifier (outputPlans baseIdentifier inputName f) [] s1 of
                    (None, s2) \<Rightarrow> (False, s2)
                  | (Some preparedTracks, s2) \<Rightarrow>
                      (let shuffled = shuffle e preparedTracks;
                           s3 = s2\<lparr>tracks := shuffled\<rparr>;
                           s4 = s3\<lparr>selectedAnswers := initial_answers shuffled Map.empty\<rparr>
                       in (True, setFeedback (msg_convert_done MAX_PLAY_SECONDS) success s4)))))"

definition startsWith :: "string \<Rightarrow> string \<Rightarrow> bool" where
  "startsWith s p = (take (length p) s = p)"

fun delete_temp :: "string \<Rightarrow> string list \<Rightarrow> state \<Rightarrow> state" where
  "delete_temp baseIdentifier [] s = s"
| "delete_temp baseIdentifier (n # ns) s =
     delete_temp baseIdentifier ns
       (if startsWith n baseIdentifier then engine_call (DeleteFile n) s else s)"

text \<open>The \<^verbatim>\<open>finally\<close> block, up to \<^verbatim>\<open>finishConverting\<close>.\<close>

definition convert_cleanup :: "env \<Rightarrow> string \<Rightarrow> state \<Rightarrow> state" where
  "convert_cleanup e baseIdentifier s =
     (if ffmpegRef s then
        (let s1 = engine_call (ListDir ''.'') s
         in case listDir e of
              None \<Rightarrow> s1
            | Some tempFiles \<Rightarrow> delete_temp baseIdentifier tempFiles s1)
      else s)"

definition handleConvert :: "env \<Rightarrow> state \<Rightarrow> state" where
  "handleConvert e s =
     (if \<not> ffmpegRef s \<or> \<not> coreLoaded s then setFeedback msg_load_ffmpeg_first error s
      else
        (case file_input s of
           None \<Rightarrow> setFeedback msg_select_song error s
         | Some f \<Rightarrow>
             (let s1 = s\<lparr>converting := True\<rparr>;
                  s2 = resetAudioRefs s1;
                  s3 = revokeTrackUrls s2;
                  s4 = s3\<lparr>tracks := []\<rparr>;
                  baseIdentifier = baseFileName (Some f) @ ''_'' @ string_of_nat (date_now e);
                  (ok, s5) = convert_try e f baseIdentifier s4;
                  s6 = (if ok then s5 else setFeedback msg_convert_failed error s5);
                  s7 = convert_cleanup e baseIdentifier s6
              in s7\<lparr>converting := False\<rparr>)))"

section \<open>Notions of the specification and sample states\<close>

text \<open>The number of tracks whose guess equals their true quality.\<close>

definition correct_count :: "state \<Rightarrow> nat" where
  "correct_count s = length (filter (\<lambda>t. answer_of s t = Some (quality t)) (tracks s))"

text \<open>The state after the component has mounted: the engine object exists, nothing else.\<close>

definition initial_state :: state where
  "initial_state =
     \<lparr>ffmpegRef = True, coreLoaded = False, converting = False, file_input = None,
      tracks = [], selectedAnswers = Map.empty, feedback = None, playingTrackIdRef = None,
      audioRefs = Map.empty, objectUrlsRef = [], revoked = [], engineCalls = [],
      urlsCreated = 0\<rparr>"

definition song_wav :: File where
  "song_wav = \<lparr>name = ''song.wav'', type_file = ''audio/wav''\<rparr>"

definition ready_state :: state where
  "ready_state = initial_state\<lparr>coreLoaded := True, file_input := Some song_wav\<rparr>"

text \<open>A session of three tracks in which every guess is \<open>mp3_320\<close>.\<close>

definition quiz_tracks :: "QuizTrack list" where
  "quiz_tracks =
     [\<lparr>id_track = ''song_1700-original'', quality = original,
       fileName = ''song_1700_original.wav'', url = ''blob:2''\<rparr>,
      \<lparr>id_track = ''song_1700-mp3_320'', quality = mp3_320,
       fileName = ''song_1700_320.mp3'', url = ''blob:1''\<rparr>,
      \<lparr>id_track = ''song_1700-mp3_128'', quality = mp3_128,
       fileName = ''song_1700_128.mp3'', url = ''blob:0''\<rparr>]"

definition quiz_state :: state where
  "quiz_state =
     ready_state\<lparr>tracks := quiz_tracks,
                 selectedAnswers :=
                   [''song_1700-original'' \<mapsto> Some mp3_320,
                    ''song_1700-mp3_320'' \<mapsto> Some mp3_320,
                    ''song_1700-mp3_128'' \<mapsto> Some mp3_320],
                 objectUrlsRef := [''blob:0'', ''blob:1'', ''blob:2''],
                 urlsCreated := 3\<rparr>"

text \<open>Every mounted element is at a position below the cap.\<close>

definition position_capped :: "state \<Rightarrow> bool" where
  "position_capped s =
     (\<forall>i. case audioRefs s i of None \<Rightarrow> True | Some a \<Rightarrow> currentTime a < real MAX_PLAY_SECONDS)"

text \<open>The sample session with its three elements mounted, and with one of them playing.\<close>

definition mounted_state :: state where
  "mounted_state =
     run quiz_state
       [Mount ''song_1700-original'', Mount ''song_1700-mp3_320'', Mount ''song_1700-mp3_128'']"

definition sounding_state :: state where
  "sounding_state = run mounted_state [Play ''song_1700-original'' True]"

text \<open>The argument lists of the \<^verbatim>\<open>exec\<close> calls among engine calls.\<close>

fun exec_args :: "engine_call list \<Rightarrow> string list list" where
  "exec_args [] = []"
| "exec_args (Exec args # cs) = args # exec_args cs"
| "exec_args (c # cs) = exec_args cs"

definition plan_args :: "plan \<Rightarrow> string list" where
  "plan_args p = command p @ [outputName p]"

text \<open>
  A step of the loop over the plans completes when \<^verbatim>\<open>exec\<close> resolves, with whatever
  exit code, and the output can be read back; otherwise it throws.
\<close>

definition step_completes :: "env \<Rightarrow> plan \<Rightarrow> bool" where
  "step_completes e p = (exec e (plan_args p) \<noteq> None \<and> readFile e (outputName p))"

text \<open>The same collaborators, with every exit code of \<^verbatim>\<open>exec\<close> replaced by zero.\<close>

definition zero_exit :: "env \<Rightarrow> env" where
  "zero_exit e = e\<lparr>exec := (\<lambda>args. map_option (\<lambda>exitCode. 0) (exec e args))\<rparr>"

text \<open>The session identifier of a run, its plans, and the state at the start of \<^verbatim>\<open>try\<close>.\<close>

definition baseIdentifier_of :: "env \<Rightarrow> File \<Rightarrow> string" where
  "baseIdentifier_of e f = baseFileName (Some f) @ ''_'' @ string_of_nat (date_now e)"

definition session_plans :: "env \<Rightarrow> File \<Rightarrow> plan list" where
  "session_plans e f =
     outputPlans (baseIdentifier_of e f)
       (baseIdentifier_of e f @ ''_input.'' @ originalExtension (Some f)) f"

definition convert_start :: "state \<Rightarrow> state" where
  "convert_start s = (revokeTrackUrls (resetAudioRefs (s\<lparr>converting := True\<rparr>)))\<lparr>tracks := []\<rparr>"

text \<open>
  Sample collaborators: an engine on which every call succeeds; one on which \<^verbatim>\<open>exec\<close>
  rejects for every encoding but the 128k one; and one on which the 128k encoding ends
  with exit code 1 but leaves a readable output, and the output of the 320k encoding
  cannot be read back.
\<close>

definition example_env :: env where
  "example_env =
     \<lparr>date_now = 1700, fetchFile = True, writeFile = (\<lambda>n. True), exec = (\<lambda>args. Some 0),
      readFile = (\<lambda>n. True), createObjectURL = (\<lambda>n. ''blob:'' @ string_of_nat n),
      listDir = Some [''song_1700_input.wav'', ''other.txt'', ''song_1700_128.mp3''],
      sort_random = rev\<rparr>"

definition failing_env :: env where
  "failing_env =
     example_env\<lparr>exec := (\<lambda>args. if ''128k'' \<in> set args then Some 0 else None)\<rparr>"

definition unreadable_env :: env where
  "unreadable_env =
     example_env\<lparr>exec := (\<lambda>args. if ''128k'' \<in> set args then Some 1 else Some 0),
                  readFile := (\<lambda>n. n \<noteq> ''song_1700_320.mp3'')\<rparr>"

section \<open>Base name and extension: theorems\<close>

lemma lastIndexOf_from_absent: "c \<notin> set xs \<Longrightarrow> lastIndexOf_from xs c i found = found"
  by (induction xs arbitrary: i found) auto

lemma lastIndexOf_from_last:
  "c \<notin> set suf \<Longrightarrow> lastIndexOf_from (pre @ c # suf) c i found = i + int (length pre)"
  by (induction pre arbitrary: i found) (auto simp: lastIndexOf_from_absent)

lemma lastIndexOf_absent: "c \<notin> set xs \<Longrightarrow> lastIndexOf xs c = - 1"
  by (simp add: lastIndexOf_def lastIndexOf_from_absent)

lemma lastIndexOf_last: "c \<notin> set suf \<Longrightarrow> lastIndexOf (pre @ c # suf) c = int (length pre)"
  by (simp add: lastIndexOf_def lastIndexOf_from_last)

text \<open>
  C9, as the code has it.  Let \<open>suf\<close> hold no full stop.  For the name \<open>pre.suf\<close> with
  \<open>pre\<close> non-empty, the extension is \<open>suf\<close> and the base name is \<open>pre\<close>.  For the name
  \<open>.suf\<close>, whose only candidate full stop is its first character, and for the name
  \<open>suf\<close>, which has none, the extension is the sentinel \<open>orig\<close> and the base name is the
  whole name.
\<close>

theorem extension_and_base_name:
  assumes "CHR ''.'' \<notin> set suf"
  shows "(pre \<noteq> [] \<longrightarrow>
            originalExtension (Some \<lparr>name = pre @ CHR ''.'' # suf, type_file = ty\<rparr>) = suf \<and>
            baseFileName (Some \<lparr>name = pre @ CHR ''.'' # suf, type_file = ty\<rparr>) = pre) \<and>
         originalExtension (Some \<lparr>name = CHR ''.'' # suf, type_file = ty\<rparr>) = ''orig'' \<and>
         baseFileName (Some \<lparr>name = CHR ''.'' # suf, type_file = ty\<rparr>) = CHR ''.'' # suf \<and>
         originalExtension (Some \<lparr>name = suf, type_file = ty\<rparr>) = ''orig'' \<and>
         baseFileName (Some \<lparr>name = suf, type_file = ty\<rparr>) = suf"
proof -
  have none: "lastIndexOf suf (CHR ''.'') = - 1"
    using assms by (rule lastIndexOf_absent)
  have first: "lastIndexOf (CHR ''.'' # suf) (CHR ''.'') = 0"
    using lastIndexOf_last [OF assms, of "[]"] by simp
  have inner: "lastIndexOf (pre @ CHR ''.'' # suf) (CHR ''.'') = int (length pre)"
    using assms by (rule lastIndexOf_last)
  have suc: "nat (int (length pre) + 1) = Suc (length pre)"
    by simp
  have ext: "originalExtension (Some \<lparr>name = pre @ CHR ''.'' # suf, type_file = ty\<rparr>) = suf"
    if "pre \<noteq> []"
    using that inner suc by (simp add: originalExtension_def slice1_def slice_index_def)
  have base: "baseFileName (Some \<lparr>name = pre @ CHR ''.'' # suf, type_file = ty\<rparr>) = pre"
    if "pre \<noteq> []"
    using that inner by (simp add: baseFileName_def slice2_def slice_index_def)
  show ?thesis
    using ext base none first by (simp add: originalExtension_def baseFileName_def)
qed

theorem extension_and_base_name_witness:
  "CHR ''.'' \<notin> set ''wav'' \<and>
   originalExtension (Some \<lparr>name = ''song.wav'', type_file = ''audio/wav''\<rparr>) = ''wav'' \<and>
   baseFileName (Some \<lparr>name = ''song.wav'', type_file = ''audio/wav''\<rparr>) = ''song'' \<and>
   originalExtension (Some \<lparr>name = ''.wav'', type_file = ''audio/wav''\<rparr>) = ''orig'' \<and>
   baseFileName (Some \<lparr>name = ''.wav'', type_file = ''audio/wav''\<rparr>) = ''.wav'' \<and>
   originalExtension (Some \<lparr>name = ''wav'', type_file = ''audio/wav''\<rparr>) = ''orig'' \<and>
   baseFileName (Some \<lparr>name = ''wav'', type_file = ''audio/wav''\<rparr>) = ''wav''"
proof -
  have h: "CHR ''.'' \<notin> set ''wav''" by simp
  show ?thesis
    using h extension_and_base_name [OF h, of "''song''" "''audio/wav''"] by simp
qed

text \<open>
  The claim C9 as stated fails on the name \<open>.bashrc\<close>: it holds a full stop, yet the
  extension is the sentinel and not \<open>bashrc\<close>, and the base name is not the empty text
  before the full stop.
\<close>

theorem extension_sentinel_counterexample:
  "CHR ''.'' \<in> set (name \<lparr>name = ''.bashrc'', type_file = []\<rparr>) \<and>
   originalExtension (Some \<lparr>name = ''.bashrc'', type_file = []\<rparr>) = ''orig'' \<and>
   originalExtension (Some \<lparr>name = ''.bashrc'', type_file = []\<rparr>) \<noteq> ''bashrc'' \<and>
   baseFileName (Some \<lparr>name = ''.bashrc'', type_file = []\<rparr>) \<noteq> []"
  by (simp add: originalExtension_def baseFileName_def lastIndexOf_def)

section \<open>Answer evaluation: theorems\<close>

lemma score_loop_count:
  "fst (score_loop s ts i c ds) =
     c + length (filter (\<lambda>t. answer_of s t = Some (quality t)) ts)"
  by (induction ts arbitrary: i c ds) (simp_all add: Let_def)

lemma score_loop_details_length:
  "length (snd (score_loop s ts i c ds)) = length ds + length ts"
  by (induction ts arbitrary: i c ds) (simp_all add: Let_def)

lemma checkAnswers_scored:
  assumes "tracks s \<noteq> []" "\<not> unanswered s"
  shows "checkAnswers s =
           setFeedback
             (msg_score (length (tracks s)) (correct_count s)
                (snd (score_loop s (tracks s) 0 0 [])))
             (if correct_count s = length (tracks s) then success else error) s"
proof -
  obtain c ds where sl: "score_loop s (tracks s) 0 0 [] = (c, ds)"
    by (cases "score_loop s (tracks s) 0 0 []")
  have "c = correct_count s"
    using score_loop_count [of s "tracks s" 0 0 "[]"] sl by (simp add: correct_count_def)
  then show ?thesis
    using assms sl by (simp add: checkAnswers_def)
qed

lemma quiz_state_facts:
  "tracks quiz_state \<noteq> []" "\<not> unanswered quiz_state" "correct_count quiz_state = 1"
  "length (tracks quiz_state) = 3"
  by (simp_all add: quiz_state_def quiz_tracks_def unanswered_def answer_of_def
      correct_count_def)

text \<open>
  C6.  For a non-empty track list in which every track has a guess, \<^verbatim>\<open>checkAnswers\<close>
  reports the track count and, as correct count, the number of tracks whose guess equals
  their true quality, with one detail line per track.  When every guess is right the
  correct count is the track count and the tone is success; when every guess is wrong
  the correct count is 0 and the tone is the other one, error.
\<close>

theorem checkAnswers_counts_correct_guesses:
  assumes "tracks s \<noteq> []" and "\<not> unanswered s"
  shows "\<exists>details.
           feedback (checkAnswers s) =
             Some \<lparr>text_msg = msg_score (length (tracks s)) (correct_count s) details,
                   tone = (if correct_count s = length (tracks s) then success else error)\<rparr> \<and>
           length details = length (tracks s) \<and>
           ((\<forall>t \<in> set (tracks s). answer_of s t = Some (quality t)) \<longrightarrow>
              correct_count s = length (tracks s) \<and>
              map_option tone (feedback (checkAnswers s)) = Some success) \<and>
           ((\<forall>t \<in> set (tracks s). answer_of s t \<noteq> Some (quality t)) \<longrightarrow>
              correct_count s = 0 \<and>
              map_option tone (feedback (checkAnswers s)) = Some error)"
proof -
  let ?ds = "snd (score_loop s (tracks s) 0 0 [])"
  have fb: "feedback (checkAnswers s) =
             Some \<lparr>text_msg = msg_score (length (tracks s)) (correct_count s) ?ds,
                   tone = (if correct_count s = length (tracks s) then success else error)\<rparr>"
    using checkAnswers_scored [OF assms] by (simp add: setFeedback_def)
  have len: "length ?ds = length (tracks s)"
    by (simp add: score_loop_details_length)
  have all_right: "correct_count s = length (tracks s)"
    if "\<forall>t \<in> set (tracks s). answer_of s t = Some (quality t)"
    using that by (simp add: correct_count_def)
  have all_wrong: "correct_count s = 0"
    if "\<forall>t \<in> set (tracks s). answer_of s t \<noteq> Some (quality t)"
    using that by (simp add: correct_count_def)
  have pos: "length (tracks s) \<noteq> 0"
    using assms(1) by simp
  show ?thesis
    using fb len all_right all_wrong pos by (intro exI [of _ ?ds]) auto
qed

theorem checkAnswers_counts_correct_guesses_witness:
  "tracks quiz_state \<noteq> [] \<and> \<not> unanswered quiz_state \<and>
   (\<exists>details. feedback (checkAnswers quiz_state) =
      Some \<lparr>text_msg = msg_score 3 1 details, tone = error\<rparr> \<and> length details = 3)"
proof -
  from checkAnswers_counts_correct_guesses [OF quiz_state_facts(1) quiz_state_facts(2)]
  obtain details where
    "feedback (checkAnswers quiz_state) =
       Some \<lparr>text_msg = msg_score (length (tracks quiz_state)) (correct_count quiz_state) details,
             tone = (if correct_count quiz_state = length (tracks quiz_state)
                     then success else error)\<rparr>"
    "length details = length (tracks quiz_state)"
    by blast
  then show ?thesis
    using quiz_state_facts by auto
qed

text \<open>
  C7.  \<^verbatim>\<open>checkAnswers\<close> answers with the empty-track-set message exactly when the track
  list is empty, and with the incomplete-answers message exactly when the list is
  non-empty and some track has no guess.  In both cases the feedback is no score report
  and nothing but the feedback changes; the track list and the answers are never changed.
\<close>

theorem checkAnswers_validation:
  "(feedback (checkAnswers s) = Some \<lparr>text_msg = msg_convert_first, tone = error\<rparr>
      \<longleftrightarrow> tracks s = []) \<and>
   (feedback (checkAnswers s) = Some \<lparr>text_msg = msg_select_all_guesses, tone = error\<rparr>
      \<longleftrightarrow> tracks s \<noteq> [] \<and> (\<exists>t \<in> set (tracks s). answer_of s t = None)) \<and>
   (tracks s = [] \<or> (\<exists>t \<in> set (tracks s). answer_of s t = None) \<longrightarrow>
      (\<forall>n c ds. map_option text_msg (feedback (checkAnswers s)) \<noteq> Some (msg_score n c ds)) \<and>
      checkAnswers s = s\<lparr>feedback := feedback (checkAnswers s)\<rparr>) \<and>
   tracks (checkAnswers s) = tracks s \<and>
   selectedAnswers (checkAnswers s) = selectedAnswers s"
proof (cases "tracks s = []")
  case True
  then show ?thesis by (simp add: checkAnswers_def setFeedback_def)
next
  case ne: False
  show ?thesis
  proof (cases "unanswered s")
    case True
    then have "\<exists>t \<in> set (tracks s). answer_of s t = None"
      by (simp add: unanswered_def list_ex_iff)
    with ne True show ?thesis by (simp add: checkAnswers_def setFeedback_def)
  next
    case False
    then have none: "\<not> (\<exists>t \<in> set (tracks s). answer_of s t = None)"
      by (simp add: unanswered_def list_ex_iff)
    show ?thesis
      using ne none checkAnswers_scored [OF ne False] by (simp add: setFeedback_def)
  qed
qed

theorem checkAnswers_validation_witness:
  "feedback (checkAnswers initial_state) = Some \<lparr>text_msg = msg_convert_first, tone = error\<rparr> \<and>
   tracks initial_state = [] \<and>
   feedback (checkAnswers (quiz_state\<lparr>selectedAnswers := Map.empty\<rparr>)) =
     Some \<lparr>text_msg = msg_select_all_guesses, tone = error\<rparr>"
proof -
  have a: "tracks initial_state = []" by (simp add: initial_state_def)
  have b: "tracks (quiz_state\<lparr>selectedAnswers := Map.empty\<rparr>) \<noteq> [] \<and>
           (\<exists>t \<in> set (tracks (quiz_state\<lparr>selectedAnswers := Map.empty\<rparr>)).
              answer_of (quiz_state\<lparr>selectedAnswers := Map.empty\<rparr>) t = None)"
    by (auto simp: quiz_state_def quiz_tracks_def answer_of_def)
  show ?thesis
    using a b checkAnswers_validation [of initial_state]
      checkAnswers_validation [of "quiz_state\<lparr>selectedAnswers := Map.empty\<rparr>"]
    by blast
qed

section \<open>Resource ledger: theorems\<close>

lemma revoke_each_append: "revoke_each us done = done @ us"
  by (induction us arbitrary: "done") simp_all

lemma revokeTrackUrls_eq:
  "revokeTrackUrls s = s\<lparr>revoked := revoked s @ objectUrlsRef s, objectUrlsRef := []\<rparr>"
  by (simp add: revokeTrackUrls_def revoke_each_append)

lemma count_list_append: "count_list (xs @ ys) u = count_list xs u + count_list ys u"
  by (induction xs) simp_all

lemma count_list_distinct:
  "distinct xs \<Longrightarrow> count_list xs u = (if u \<in> set xs then 1 else 0)"
  by (induction xs) auto

lemma set_add_distinct: "distinct us \<Longrightarrow> distinct (set_add u us)"
  by (simp add: set_add_def)

text \<open>
  C8.  \<^verbatim>\<open>revokeTrackUrls\<close> hands every registered locator to the revocation exactly
  once (the locators of a \<^verbatim>\<open>Set\<close> are distinct) and empties the set.  A second call
  right after the first revokes nothing and changes nothing, the set is empty after
  each of the two calls, and on an empty set the call changes nothing at all.  If no
  locator had been revoked twice, or revoked while still registered, before the calls,
  then none has been revoked more than once after them.
\<close>

theorem releaseAll_once_and_idempotent:
  assumes "distinct (objectUrlsRef s)"
  shows "objectUrlsRef (revokeTrackUrls s) = [] \<and>
         revoked (revokeTrackUrls s) = revoked s @ objectUrlsRef s \<and>
         (\<forall>u. count_list (revoked (revokeTrackUrls s)) u =
                count_list (revoked s) u + (if u \<in> set (objectUrlsRef s) then 1 else 0)) \<and>
         revokeTrackUrls (revokeTrackUrls s) = revokeTrackUrls s \<and>
         objectUrlsRef (revokeTrackUrls (revokeTrackUrls s)) = [] \<and>
         revoked (revokeTrackUrls (revokeTrackUrls s)) = revoked (revokeTrackUrls s) \<and>
         (objectUrlsRef s = [] \<longrightarrow> revokeTrackUrls s = s) \<and>
         (distinct (revoked s @ objectUrlsRef s) \<longrightarrow>
            distinct (revoked (revokeTrackUrls (revokeTrackUrls s))))"
  using assms
  by (simp add: revokeTrackUrls_eq count_list_append count_list_distinct)

theorem releaseAll_once_and_idempotent_witness:
  "distinct (objectUrlsRef quiz_state) \<and>
   objectUrlsRef (revokeTrackUrls quiz_state) = [] \<and>
   revoked (revokeTrackUrls quiz_state) = [''blob:0'', ''blob:1'', ''blob:2''] \<and>
   count_list (revoked (revokeTrackUrls quiz_state)) ''blob:1'' = 1 \<and>
   revoked (revokeTrackUrls (revokeTrackUrls quiz_state)) = [''blob:0'', ''blob:1'', ''blob:2''] \<and>
   revokeTrackUrls initial_state = initial_state"
proof -
  have d: "distinct (objectUrlsRef quiz_state)"
    by (simp add: quiz_state_def)
  have d0: "distinct (objectUrlsRef initial_state)"
    by (simp add: initial_state_def)
  have q: "objectUrlsRef quiz_state = [''blob:0'', ''blob:1'', ''blob:2'']"
    "revoked quiz_state = []"
    by (simp_all add: quiz_state_def ready_state_def initial_state_def)
  have e: "objectUrlsRef initial_state = []"
    by (simp add: initial_state_def)
  show ?thesis
    using d q e releaseAll_once_and_idempotent [OF d] releaseAll_once_and_idempotent [OF d0]
    by simp
qed

section \<open>Playback: theorems\<close>

lemma unpaused_handlePlay:
  assumes "audioRefs s t \<noteq> None" and "unpaused (handlePlay t started s) i"
  shows "i = t"
  using assms
  by (auto simp: unpaused_def handlePlay_def stop_audio_def Let_def split: option.splits if_splits)

lemma handlePlay_unregistered: "audioRefs s t = None \<Longrightarrow> handlePlay t started s = s"
  by (simp add: handlePlay_def)

lemma handlePlay_keeps_refs:
  "audioRefs (handlePlay t started s) i = None \<longleftrightarrow> audioRefs s i = None"
  by (auto simp: handlePlay_def Let_def split: option.splits)

lemma amo_handlePlay: "at_most_one_unpaused s \<Longrightarrow> at_most_one_unpaused (handlePlay t started s)"
proof (cases "audioRefs s t")
  case None
  assume "at_most_one_unpaused s"
  with None show ?thesis by (simp add: handlePlay_unregistered)
next
  case (Some a)
  then have reg: "audioRefs s t \<noteq> None" by simp
  show ?thesis
    unfolding at_most_one_unpaused_def
  proof (intro allI impI)
    fix i j
    assume "unpaused (handlePlay t started s) i \<and> unpaused (handlePlay t started s) j"
    then have "i = t" "j = t"
      using unpaused_handlePlay [OF reg] by blast+
    then show "i = j" by simp
  qed
qed

lemma unpaused_step:
  assumes "unpaused (step s ev) i" and "\<forall>t started. ev \<noteq> Play t started"
  shows "unpaused s i"
proof (cases ev)
  case (Play t started)
  with assms(2) show ?thesis by blast
next
  case PlayRejected
  with assms(1) show ?thesis
    by (simp add: unpaused_def playRejected_def setFeedback_def)
next
  case (TimeUpdate t x)
  with assms(1) show ?thesis
    by (auto simp: unpaused_def limitHandler_def advance_def stop_audio_def
        split: option.splits if_splits)
next
  case (Ended t)
  with assms(1) show ?thesis
    by (auto simp: unpaused_def endedHandler_def finish_def split: option.splits if_splits)
next
  case (Mount t)
  with assms(1) show ?thesis
    by (auto simp: unpaused_def audioRefCallback_def fresh_audio_def split: if_splits)
next
  case (Unmount t)
  with assms(1) show ?thesis
    by (auto simp: unpaused_def audioRefCallback_def split: if_splits)
next
  case ResetAll
  with assms(1) show ?thesis
    by (simp add: unpaused_def resetAudioRefs_def)
qed

lemma amo_step: "at_most_one_unpaused s \<Longrightarrow> at_most_one_unpaused (step s ev)"
proof (cases "\<exists>t started. ev = Play t started")
  case True
  assume "at_most_one_unpaused s"
  with True show ?thesis by (auto simp: amo_handlePlay)
next
  case False
  assume amo: "at_most_one_unpaused s"
  from False have np: "\<forall>t started. ev \<noteq> Play t started" by simp
  show ?thesis
    unfolding at_most_one_unpaused_def
  proof (intro allI impI)
    fix i j
    assume "unpaused (step s ev) i \<and> unpaused (step s ev) j"
    then have "unpaused s i" "unpaused s j"
      using unpaused_step [OF _ np] by blast+
    with amo show "i = j" by (simp add: at_most_one_unpaused_def)
  qed
qed

lemma amo_run: "at_most_one_unpaused s \<Longrightarrow> at_most_one_unpaused (run s es)"
  unfolding run_def by (induction es arbitrary: s) (simp_all add: amo_step)

lemma amo_initial: "at_most_one_unpaused initial_state"
  by (simp add: at_most_one_unpaused_def unpaused_def initial_state_def)


lemma mounted_refs:
  "audioRefs mounted_state ''song_1700-original'' = Some fresh_audio"
  "audioRefs mounted_state ''song_1700-mp3_320'' = Some fresh_audio"
  "audioRefs mounted_state ''song_1700-mp3_128'' = Some fresh_audio"
  "playingTrackIdRef mounted_state = None"
  by (simp_all add: mounted_state_def run_def audioRefCallback_def quiz_state_def
      ready_state_def initial_state_def)

text \<open>
  C2.  Let \<open>A\<close> and \<open>B\<close> be distinct track ids with mounted elements.  After
  \<^verbatim>\<open>handlePlay(A)\<close> and then \<^verbatim>\<open>handlePlay(B)\<close>, where the element of \<open>B\<close> starts,
  the playing id is \<open>B\<close>, the element of \<open>B\<close> is the only unpaused one and it started
  from position zero, and the element of \<open>A\<close> is paused at position zero.  Moreover,
  from a state with at most one unpaused element (the initial state is one), every
  sequence of play, play-rejection, time-update, end, mount, unmount and reset events
  leaves at most one element unpaused.
\<close>

theorem play_then_play_single_sounding:
  assumes "audioRefs s A \<noteq> None" and "audioRefs s B \<noteq> None" and "A \<noteq> B"
    and "at_most_one_unpaused s0"
  shows "playingTrackIdRef (handlePlay B True (handlePlay A startedA s)) = Some B \<and>
         (\<forall>i. unpaused (handlePlay B True (handlePlay A startedA s)) i \<longleftrightarrow> i = B) \<and>
         map_option currentTime (audioRefs (handlePlay B True (handlePlay A startedA s)) B)
           = Some 0 \<and>
         map_option paused (audioRefs (handlePlay B True (handlePlay A startedA s)) A)
           = Some True \<and>
         map_option currentTime (audioRefs (handlePlay B True (handlePlay A startedA s)) A)
           = Some 0 \<and>
         at_most_one_unpaused (handlePlay B True (handlePlay A startedA s)) \<and>
         at_most_one_unpaused (run s0 es)"
proof -
  let ?s1 = "handlePlay A startedA s"
  let ?s2 = "handlePlay B True ?s1"
  obtain b where b: "audioRefs ?s1 B = Some b"
    using assms(2) handlePlay_keeps_refs [of A startedA s B] by auto
  obtain a where a: "audioRefs ?s1 A = Some a"
    using assms(1) handlePlay_keeps_refs [of A startedA s A] by auto
  have pl: "playingTrackIdRef ?s1 \<noteq> Some B"
    using assms(1,3) by (auto simp: handlePlay_def Let_def split: option.splits)
  have p2: "playingTrackIdRef ?s2 = Some B"
    using b pl by (simp add: handlePlay_def Let_def)
  have rb: "audioRefs ?s2 B = Some (b\<lparr>currentTime := 0, paused := False\<rparr>)"
    using b pl by (simp add: handlePlay_def Let_def)
  have ra: "audioRefs ?s2 A = Some (stop_audio a)"
    using a b pl assms(3) by (simp add: handlePlay_def Let_def)
  have only: "unpaused ?s2 i \<longleftrightarrow> i = B" for i
  proof
    assume "unpaused ?s2 i"
    then show "i = B" using unpaused_handlePlay [of ?s1 B True i] b by simp
  next
    assume "i = B"
    then show "unpaused ?s2 i" using rb by (simp add: unpaused_def)
  qed
  have amo: "at_most_one_unpaused ?s2"
    using only by (simp add: at_most_one_unpaused_def)
  show ?thesis
    using p2 only rb ra amo amo_run [OF assms(4)] by (simp add: stop_audio_def)
qed

theorem play_then_play_single_sounding_witness:
  "audioRefs mounted_state ''song_1700-original'' \<noteq> None \<and>
   audioRefs mounted_state ''song_1700-mp3_320'' \<noteq> None \<and>
   ''song_1700-original'' \<noteq> ''song_1700-mp3_320'' \<and>
   at_most_one_unpaused initial_state \<and>
   playingTrackIdRef
     (handlePlay ''song_1700-mp3_320'' True (handlePlay ''song_1700-original'' True mounted_state))
     = Some ''song_1700-mp3_320'' \<and>
   unpaused
     (handlePlay ''song_1700-mp3_320'' True (handlePlay ''song_1700-original'' True mounted_state))
     ''song_1700-mp3_320'' \<and>
   \<not> unpaused
     (handlePlay ''song_1700-mp3_320'' True (handlePlay ''song_1700-original'' True mounted_state))
     ''song_1700-original'' \<and>
   at_most_one_unpaused
     (run initial_state [Mount ''a'', Mount ''b'', Play ''a'' True, Play ''b'' True, Ended ''b''])"
proof -
  have h1: "audioRefs mounted_state ''song_1700-original'' \<noteq> None"
    and h2: "audioRefs mounted_state ''song_1700-mp3_320'' \<noteq> None"
    by (simp_all add: mounted_refs)
  have h3: "''song_1700-original'' \<noteq> ''song_1700-mp3_320''" by simp
  show ?thesis
    using h1 h2 h3 amo_initial
      play_then_play_single_sounding [OF h1 h2 h3 amo_initial, of True
        "[Mount ''a'', Mount ''b'', Play ''a'' True, Play ''b'' True, Ended ''b'']"]
    by simp
qed

lemma capped_step: "position_capped s \<Longrightarrow> position_capped (step s ev)"
proof (cases ev)
  case (Play t started)
  assume "position_capped s"
  then have c: "\<And>i a. audioRefs s i = Some a \<Longrightarrow> currentTime a < real MAX_PLAY_SECONDS"
    by (auto simp: position_capped_def split: option.splits)
  have z: "0 < real MAX_PLAY_SECONDS" by (simp add: MAX_PLAY_SECONDS_def)
  show ?thesis
    using Play c z
    by (auto simp: position_capped_def handlePlay_def stop_audio_def Let_def
        split: option.splits if_splits)
next
  case PlayRejected
  assume "position_capped s"
  then show ?thesis using PlayRejected
    by (simp add: position_capped_def playRejected_def setFeedback_def)
next
  case (TimeUpdate t x)
  assume "position_capped s"
  then have c: "\<And>i a. audioRefs s i = Some a \<Longrightarrow> currentTime a < real MAX_PLAY_SECONDS"
    by (auto simp: position_capped_def split: option.splits)
  have z: "0 < real MAX_PLAY_SECONDS" by (simp add: MAX_PLAY_SECONDS_def)
  show ?thesis
    using TimeUpdate c z
    by (auto simp: position_capped_def limitHandler_def advance_def stop_audio_def
        split: option.splits if_splits)
next
  case (Ended t)
  assume "position_capped s"
  then have c: "\<And>i a. audioRefs s i = Some a \<Longrightarrow> currentTime a < real MAX_PLAY_SECONDS"
    by (auto simp: position_capped_def split: option.splits)
  have z: "0 < real MAX_PLAY_SECONDS" by (simp add: MAX_PLAY_SECONDS_def)
  show ?thesis
    using Ended c z
    by (auto simp: position_capped_def endedHandler_def finish_def
        split: option.splits if_splits)
next
  case (Mount t)
  assume "position_capped s"
  then show ?thesis using Mount
    by (auto simp: position_capped_def audioRefCallback_def fresh_audio_def
        MAX_PLAY_SECONDS_def split: option.splits)
next
  case (Unmount t)
  assume "position_capped s"
  then show ?thesis using Unmount
    by (auto simp: position_capped_def audioRefCallback_def split: option.splits)
next
  case ResetAll
  then show ?thesis
    by (simp add: position_capped_def resetAudioRefs_def)
qed

lemma capped_run: "position_capped s \<Longrightarrow> position_capped (run s es)"
  unfolding run_def by (induction es arbitrary: s) (simp_all add: capped_step)

lemma capped_initial: "position_capped initial_state"
  by (simp add: position_capped_def initial_state_def)

text \<open>
  C3.  The cap is 120 seconds.  When the element of the playing track reports a position
  at or beyond the cap in a \<^verbatim>\<open>timeupdate\<close> event, the handler pauses it, rewinds it to
  zero and clears the playing id.  Hence, from a state whose elements are below the cap,
  after every sequence of events every mounted element is at a position below the cap.
  (The browser decides how often \<^verbatim>\<open>timeupdate\<close> fires; the model pairs each change of
  position with its event.)
\<close>

theorem cap_forces_stop:
  assumes "audioRefs s trackId = Some a" and "playingTrackIdRef s = Some trackId"
    and "real MAX_PLAY_SECONDS \<le> t" and "position_capped s0"
  shows "MAX_PLAY_SECONDS = 120 \<and>
         audioRefs (step s (TimeUpdate trackId t)) trackId
           = Some (a\<lparr>paused := True, currentTime := 0\<rparr>) \<and>
         playingTrackIdRef (step s (TimeUpdate trackId t)) = None \<and>
         \<not> unpaused (step s (TimeUpdate trackId t)) trackId \<and>
         position_capped (run s0 es)"
  using assms capped_run [OF assms(4), of es]
  by (simp add: MAX_PLAY_SECONDS_def limitHandler_def advance_def stop_audio_def unpaused_def)

lemma sounding_facts:
  "audioRefs sounding_state ''song_1700-original'' = Some \<lparr>paused = False, currentTime = 0\<rparr>"
  "playingTrackIdRef sounding_state = Some ''song_1700-original''"
  by (simp_all add: sounding_state_def run_def handlePlay_def mounted_refs fresh_audio_def)

theorem cap_forces_stop_witness:
  "audioRefs sounding_state ''song_1700-original'' = Some \<lparr>paused = False, currentTime = 0\<rparr> \<and>
   playingTrackIdRef sounding_state = Some ''song_1700-original'' \<and>
   real MAX_PLAY_SECONDS \<le> 120.25 \<and> position_capped initial_state \<and>
   audioRefs (step sounding_state (TimeUpdate ''song_1700-original'' 120.25)) ''song_1700-original''
     = Some \<lparr>paused = True, currentTime = 0\<rparr> \<and>
   playingTrackIdRef (step sounding_state (TimeUpdate ''song_1700-original'' 120.25)) = None \<and>
   position_capped
     (run initial_state [Mount ''a'', Play ''a'' True, TimeUpdate ''a'' 119, TimeUpdate ''a'' 121])"
proof -
  have h3: "real MAX_PLAY_SECONDS \<le> 120.25" by (simp add: MAX_PLAY_SECONDS_def)
  show ?thesis
    using sounding_facts h3 capped_initial
      cap_forces_stop [OF sounding_facts(1) sounding_facts(2) h3 capped_initial,
        of "[Mount ''a'', Play ''a'' True, TimeUpdate ''a'' 119, TimeUpdate ''a'' 121]"]
    by simp
qed

text \<open>
  C10.  \<^verbatim>\<open>handlePlay\<close> on the track that is the playing one does not restart it: the
  element is paused and rewound to zero, the playing id is cleared, and no element is
  left unpaused, whatever \<^verbatim>\<open>play()\<close> would have done.
\<close>

theorem play_on_sounding_track_stops:
  assumes "audioRefs s trackId = Some a" and "playingTrackIdRef s = Some trackId"
  shows "playingTrackIdRef (handlePlay trackId started s) = None \<and>
         audioRefs (handlePlay trackId started s) trackId
           = Some (a\<lparr>paused := True, currentTime := 0\<rparr>) \<and>
         (\<forall>i. \<not> unpaused (handlePlay trackId started s) i)"
  using assms
  by (auto simp: handlePlay_def stop_audio_def unpaused_def Let_def split: option.splits)

theorem play_on_sounding_track_stops_witness:
  "audioRefs sounding_state ''song_1700-original'' = Some \<lparr>paused = False, currentTime = 0\<rparr> \<and>
   playingTrackIdRef sounding_state = Some ''song_1700-original'' \<and>
   playingTrackIdRef (handlePlay ''song_1700-original'' True sounding_state) = None \<and>
   audioRefs (handlePlay ''song_1700-original'' True sounding_state) ''song_1700-original''
     = Some \<lparr>paused = True, currentTime = 0\<rparr>"
  using sounding_facts
    play_on_sounding_track_stops [OF sounding_facts(1) sounding_facts(2), of True]
  by simp

section \<open>Transcoding: theorems\<close>

lemma exec_args_append: "exec_args (xs @ ys) = exec_args xs @ exec_args ys"
  by (induction xs rule: exec_args.induct) simp_all

lemma run_plans_frame:
  "run_plans e b ps prep s = (r, s') \<Longrightarrow>
     tracks s' = tracks s \<and> feedback s' = feedback s \<and> revoked s' = revoked s \<and>
     ffmpegRef s' = ffmpegRef s \<and> selectedAnswers s' = selectedAnswers s \<and>
     audioRefs s' = audioRefs s \<and> playingTrackIdRef s' = playingTrackIdRef s"
proof (induction ps arbitrary: prep s)
  case Nil
  then show ?case by auto
next
  case (Cons p ps)
  show ?case
  proof (cases "exec e (command p @ [outputName p]) \<noteq> None \<and> readFile e (outputName p)")
    case False
    with Cons.prems show ?thesis
      by (auto simp: Let_def engine_call_def split: if_splits)
  next
    case True
    with Cons.prems show ?thesis
      using Cons.IH by (fastforce simp: Let_def engine_call_def)
  qed
qed

lemma run_plans_urls:
  "run_plans e b ps prep s = (r, s') \<Longrightarrow>
     urlsCreated s \<le> urlsCreated s' \<and>
     set (objectUrlsRef s') =
       set (objectUrlsRef s) \<union> createObjectURL e ` {urlsCreated s ..< urlsCreated s'} \<and>
     (r = None \<longrightarrow> urlsCreated s' < urlsCreated s + length ps) \<and>
     (r \<noteq> None \<longrightarrow> urlsCreated s' = urlsCreated s + length ps)"
proof (induction ps arbitrary: prep s)
  case Nil
  then show ?case by auto
next
  case (Cons p ps)
  show ?case
  proof (cases "exec e (command p @ [outputName p]) \<noteq> None \<and> readFile e (outputName p)")
    case False
    with Cons.prems show ?thesis
      by (auto simp: Let_def engine_call_def split: if_splits)
  next
    case True
    let ?s3 = "s\<lparr>engineCalls := engineCalls s @ [Exec (command p @ [outputName p])] @
                     [ReadFile (outputName p)],
                 urlsCreated := urlsCreated s + 1,
                 objectUrlsRef := set_add (createObjectURL e (urlsCreated s)) (objectUrlsRef s)\<rparr>"
    let ?t = "\<lparr>id_track = createTrackId b (plan_quality p), quality = plan_quality p,
               fileName = outputName p, url = createObjectURL e (urlsCreated s)\<rparr>"
    from Cons.prems True have rec: "run_plans e b ps (prep @ [?t]) ?s3 = (r, s')"
      by (simp add: Let_def engine_call_def)
    note ih = Cons.IH [OF rec]
    have st: "set (objectUrlsRef ?s3) =
                set (objectUrlsRef s) \<union> {createObjectURL e (urlsCreated s)}"
      by (auto simp: set_add_def)
    have le: "urlsCreated s < urlsCreated s'"
      using ih by simp
    have img: "createObjectURL e ` {urlsCreated s ..< urlsCreated s'} =
               {createObjectURL e (urlsCreated s)} \<union>
               createObjectURL e ` {urlsCreated s + 1 ..< urlsCreated s'}"
    proof -
      have "{urlsCreated s ..< urlsCreated s'} =
            {urlsCreated s} \<union> {urlsCreated s + 1 ..< urlsCreated s'}"
        using le by auto
      then show ?thesis by (metis image_Un image_empty image_insert)
    qed
    show ?thesis
      using ih st img by auto
  qed
qed

lemma run_plans_execs:
  "run_plans e b ps prep s = (r, s') \<Longrightarrow>
     \<exists>new. engineCalls s' = engineCalls s @ new \<and>
           exec_args new =
             map plan_args
               (take (urlsCreated s' - urlsCreated s + (if r = None then 1 else 0)) ps)"
proof (induction ps arbitrary: prep s)
  case Nil
  then show ?case by auto
next
  case (Cons p ps)
  show ?case
  proof (cases "exec e (command p @ [outputName p]) \<noteq> None \<and> readFile e (outputName p)")
    case False
    with Cons.prems show ?thesis
      by (auto simp: Let_def engine_call_def plan_args_def split: if_splits)
  next
    case True
    let ?s3 = "s\<lparr>engineCalls := engineCalls s @ [Exec (command p @ [outputName p])] @
                     [ReadFile (outputName p)],
                 urlsCreated := urlsCreated s + 1,
                 objectUrlsRef := set_add (createObjectURL e (urlsCreated s)) (objectUrlsRef s)\<rparr>"
    let ?t = "\<lparr>id_track = createTrackId b (plan_quality p), quality = plan_quality p,
               fileName = outputName p, url = createObjectURL e (urlsCreated s)\<rparr>"
    from Cons.prems True have rec: "run_plans e b ps (prep @ [?t]) ?s3 = (r, s')"
      by (simp add: Let_def engine_call_def)
    from Cons.IH [OF rec] obtain new where
      n1: "engineCalls s' = engineCalls ?s3 @ new" and
      n2: "exec_args new =
             map plan_args
               (take (urlsCreated s' - urlsCreated ?s3 + (if r = None then 1 else 0)) ps)"
      by blast
    have le: "urlsCreated s < urlsCreated s'"
      using run_plans_urls [OF rec] by simp
    then have k: "urlsCreated s' - urlsCreated s + (if r = None then 1 else 0) =
                  Suc (urlsCreated s' - urlsCreated ?s3 + (if r = None then 1 else 0))"
      by simp
    let ?new = "[Exec (command p @ [outputName p]), ReadFile (outputName p)] @ new"
    have "engineCalls s' = engineCalls s @ ?new"
      using n1 by simp
    moreover have "exec_args ?new =
        map plan_args
          (take (urlsCreated s' - urlsCreated s + (if r = None then 1 else 0)) (p # ps))"
      unfolding k using n2 by (simp add: plan_args_def)
    ultimately show ?thesis by blast
  qed
qed

lemma run_plans_tracks:
  "run_plans e b ps prep s = (Some tr, s') \<Longrightarrow>
     map quality tr = map quality prep @ map plan_quality ps \<and>
     map id_track tr =
       map id_track prep @ map (\<lambda>p. createTrackId b (plan_quality p)) ps"
proof (induction ps arbitrary: prep s)
  case Nil
  then show ?case by auto
next
  case (Cons p ps)
  show ?case
  proof (cases "exec e (command p @ [outputName p]) \<noteq> None \<and> readFile e (outputName p)")
    case False
    with Cons.prems show ?thesis
      by (auto simp: Let_def engine_call_def split: if_splits)
  next
    case True
    let ?s3 = "s\<lparr>engineCalls := engineCalls s @ [Exec (command p @ [outputName p])] @
                     [ReadFile (outputName p)],
                 urlsCreated := urlsCreated s + 1,
                 objectUrlsRef := set_add (createObjectURL e (urlsCreated s)) (objectUrlsRef s)\<rparr>"
    let ?t = "\<lparr>id_track = createTrackId b (plan_quality p), quality = plan_quality p,
               fileName = outputName p, url = createObjectURL e (urlsCreated s)\<rparr>"
    from Cons.prems True have rec: "run_plans e b ps (prep @ [?t]) ?s3 = (Some tr, s')"
      by (simp add: Let_def engine_call_def)
    from Cons.IH [OF rec] show ?thesis by simp
  qed
qed

lemma delete_temp_frame:
  "tracks (delete_temp b ns s) = tracks s \<and> feedback (delete_temp b ns s) = feedback s \<and>
   revoked (delete_temp b ns s) = revoked s \<and>
   objectUrlsRef (delete_temp b ns s) = objectUrlsRef s \<and>
   urlsCreated (delete_temp b ns s) = urlsCreated s \<and>
   (\<exists>new. engineCalls (delete_temp b ns s) = engineCalls s @ new \<and> exec_args new = [])"
proof (induction ns arbitrary: s)
  case Nil
  then show ?case by simp
next
  case (Cons n ns)
  show ?case
  proof (cases "startsWith n b")
    case False
    then show ?thesis using Cons.IH [of s] by simp
  next
    case True
    let ?s1 = "engine_call (DeleteFile n) s"
    from Cons.IH [of ?s1] obtain new where
      f: "tracks (delete_temp b ns ?s1) = tracks ?s1"
         "feedback (delete_temp b ns ?s1) = feedback ?s1"
         "revoked (delete_temp b ns ?s1) = revoked ?s1"
         "objectUrlsRef (delete_temp b ns ?s1) = objectUrlsRef ?s1"
         "urlsCreated (delete_temp b ns ?s1) = urlsCreated ?s1"
         "engineCalls (delete_temp b ns ?s1) = engineCalls ?s1 @ new" "exec_args new = []"
      by blast
    have "engineCalls (delete_temp b (n # ns) s) = engineCalls s @ (DeleteFile n # new)"
      using True f(6) by (simp add: engine_call_def)
    moreover have "exec_args (DeleteFile n # new) = []"
      using f(7) by simp
    ultimately show ?thesis
      using True f(1-5) by (auto simp: engine_call_def)
  qed
qed

lemma convert_cleanup_frame:
  "tracks (convert_cleanup e b s) = tracks s \<and> feedback (convert_cleanup e b s) = feedback s \<and>
   revoked (convert_cleanup e b s) = revoked s \<and>
   objectUrlsRef (convert_cleanup e b s) = objectUrlsRef s \<and>
   urlsCreated (convert_cleanup e b s) = urlsCreated s \<and>
   (\<exists>new. engineCalls (convert_cleanup e b s) = engineCalls s @ new \<and> exec_args new = [])"
proof (cases "ffmpegRef s")
  case False
  then show ?thesis by (simp add: convert_cleanup_def)
next
  case True
  let ?s1 = "engine_call (ListDir ''.'') s"
  show ?thesis
  proof (cases "listDir e")
    case None
    have "engineCalls (convert_cleanup e b s) = engineCalls s @ [ListDir ''.'']"
      using True None by (simp add: convert_cleanup_def engine_call_def)
    moreover have "exec_args [ListDir ''.''] = []" by simp
    ultimately show ?thesis
      using True None by (auto simp: convert_cleanup_def engine_call_def)
  next
    case (Some ns)
    from delete_temp_frame [of b ns ?s1] obtain new where
      f: "tracks (delete_temp b ns ?s1) = tracks ?s1"
         "feedback (delete_temp b ns ?s1) = feedback ?s1"
         "revoked (delete_temp b ns ?s1) = revoked ?s1"
         "objectUrlsRef (delete_temp b ns ?s1) = objectUrlsRef ?s1"
         "urlsCreated (delete_temp b ns ?s1) = urlsCreated ?s1"
         "engineCalls (delete_temp b ns ?s1) = engineCalls ?s1 @ new" "exec_args new = []"
      by blast
    have c: "convert_cleanup e b s = delete_temp b ns ?s1"
      using True Some by (simp add: convert_cleanup_def)
    have "engineCalls (convert_cleanup e b s) = engineCalls s @ (ListDir ''.'' # new)"
      using c f(6) by (simp add: engine_call_def)
    moreover have "exec_args (ListDir ''.'' # new) = []"
      using f(7) by simp
    ultimately show ?thesis
      using c f(1-5) by (auto simp: engine_call_def)
  qed
qed

lemma convert_start_facts:
  "tracks (convert_start s) = []" "revoked (convert_start s) = revoked s @ objectUrlsRef s"
  "objectUrlsRef (convert_start s) = []" "urlsCreated (convert_start s) = urlsCreated s"
  "engineCalls (convert_start s) = engineCalls s" "ffmpegRef (convert_start s) = ffmpegRef s"
  by (simp_all add: convert_start_def revokeTrackUrls_eq resetAudioRefs_def)

lemma handleConvert_run:
  assumes "ffmpegRef s" "coreLoaded s" "file_input s = Some f"
    and "convert_try e f (baseIdentifier_of e f) (convert_start s) = (ok, s5)"
  shows "handleConvert e s =
           (convert_cleanup e (baseIdentifier_of e f)
              (if ok then s5 else setFeedback msg_convert_failed error s5))\<lparr>converting := False\<rparr>"
  using assms
  by (simp add: handleConvert_def Let_def convert_start_def baseIdentifier_of_def)

lemma length_outputPlans: "length (outputPlans b i f) = 3"
  by (simp add: outputPlans_def)

lemma qualities_outputPlans:
  "map plan_quality (outputPlans b i f) = [mp3_128, mp3_320, original]"
  by (simp add: outputPlans_def)

lemma convert_try_ok:
  assumes "convert_try e f b s = (True, s')"
  shows "\<exists>prep. tracks s' = shuffle e prep \<and>
           map quality prep = [mp3_128, mp3_320, original] \<and>
           map id_track prep = map (createTrackId b) [mp3_128, mp3_320, original]"
proof -
  let ?i = "b @ ''_input.'' @ originalExtension (Some f)"
  let ?s1 = "engine_call (WriteFile ?i) s"
  from assms have fw: "fetchFile e" "writeFile e ?i"
    by (auto simp: convert_try_def Let_def split: if_splits)
  obtain r s2 where rp: "run_plans e b (outputPlans b ?i f) [] ?s1 = (r, s2)"
    by (cases "run_plans e b (outputPlans b ?i f) [] ?s1")
  from assms fw rp obtain prep where r: "r = Some prep"
    by (cases r) (auto simp: convert_try_def Let_def)
  from assms fw rp r have t: "tracks s' = shuffle e prep"
    by (auto simp: convert_try_def Let_def setFeedback_def)
  from run_plans_tracks [OF rp [unfolded r]] have q:
    "map quality prep = [mp3_128, mp3_320, original]"
    "map id_track prep = map (createTrackId b) [mp3_128, mp3_320, original]"
    by (simp_all add: outputPlans_def)
  show ?thesis
    by (rule exI [of _ prep]) (simp only: t q simp_thms)
qed

lemma convert_try_fail:
  assumes "convert_try e f b s = (False, s')"
  shows "tracks s' = tracks s \<and> feedback s' = feedback s \<and> revoked s' = revoked s \<and>
         ffmpegRef s' = ffmpegRef s \<and>
         urlsCreated s \<le> urlsCreated s' \<and> urlsCreated s' < urlsCreated s + 3 \<and>
         set (objectUrlsRef s') =
           set (objectUrlsRef s) \<union> createObjectURL e ` {urlsCreated s ..< urlsCreated s'} \<and>
         (urlsCreated s < urlsCreated s' \<longrightarrow>
            (\<exists>new. engineCalls s' = engineCalls s @ new \<and>
               exec_args new =
                 map plan_args
                   (take (Suc (urlsCreated s' - urlsCreated s))
                      (outputPlans b (b @ ''_input.'' @ originalExtension (Some f)) f))))"
proof -
  let ?i = "b @ ''_input.'' @ originalExtension (Some f)"
  let ?s1 = "engine_call (WriteFile ?i) s"
  show ?thesis
  proof (cases "fetchFile e \<and> writeFile e ?i")
    case False
    with assms have "s' = s \<or> s' = ?s1"
      by (auto simp: convert_try_def Let_def split: if_splits)
    then show ?thesis by (auto simp: engine_call_def)
  next
    case True
    obtain r s2 where rp: "run_plans e b (outputPlans b ?i f) [] ?s1 = (r, s2)"
      by (cases "run_plans e b (outputPlans b ?i f) [] ?s1")
    from assms True rp have r: "r = None" and s2: "s2 = s'"
      by (cases r; simp add: convert_try_def Let_def)+
    note fr = run_plans_frame [OF rp [unfolded r s2]]
    note ur = run_plans_urls [OF rp [unfolded r s2]]
    from run_plans_execs [OF rp [unfolded r s2]] obtain new where
      n1: "engineCalls s' = engineCalls ?s1 @ new" and
      n2: "exec_args new =
             map plan_args (take (urlsCreated s' - urlsCreated ?s1 + 1) (outputPlans b ?i f))"
      by auto
    have "engineCalls s' = engineCalls s @ (WriteFile ?i # new)"
      using n1 by (simp add: engine_call_def)
    moreover have "exec_args (WriteFile ?i # new) =
        map plan_args (take (Suc (urlsCreated s' - urlsCreated s)) (outputPlans b ?i f))"
      using n2 by (simp add: engine_call_def)
    ultimately have ex: "\<exists>new. engineCalls s' = engineCalls s @ new \<and>
        exec_args new =
          map plan_args (take (Suc (urlsCreated s' - urlsCreated s)) (outputPlans b ?i f))"
      by blast
    show ?thesis
      using fr ur ex by (simp add: engine_call_def length_outputPlans)
  qed
qed

lemma handleConvert_feedback:
  assumes "ffmpegRef s" "coreLoaded s" "file_input s = Some f"
    and "convert_try e f (baseIdentifier_of e f) (convert_start s) = (ok, s5)"
  shows "feedback (handleConvert e s) =
           (if ok then Some \<lparr>text_msg = msg_convert_done MAX_PLAY_SECONDS, tone = success\<rparr>
            else Some \<lparr>text_msg = msg_convert_failed, tone = error\<rparr>)"
proof (cases ok)
  case False
  then show ?thesis
    using handleConvert_run [OF assms] convert_cleanup_frame by (simp add: setFeedback_def)
next
  case True
  with assms(4) have "feedback s5 =
      Some \<lparr>text_msg = msg_convert_done MAX_PLAY_SECONDS, tone = success\<rparr>"
    by (auto simp: convert_try_def Let_def setFeedback_def split: if_splits prod.splits option.splits)
  with True show ?thesis
    using handleConvert_run [OF assms] convert_cleanup_frame by simp
qed

lemma handleConvert_not_run:
  "\<not> ffmpegRef s \<or> \<not> coreLoaded s \<Longrightarrow>
     handleConvert e s = s\<lparr>feedback := Some \<lparr>text_msg = msg_load_ffmpeg_first, tone = error\<rparr>\<rparr>"
  "ffmpegRef s \<Longrightarrow> coreLoaded s \<Longrightarrow> file_input s = None \<Longrightarrow>
     handleConvert e s = s\<lparr>feedback := Some \<lparr>text_msg = msg_select_song, tone = error\<rparr>\<rparr>"
  by (auto simp: handleConvert_def setFeedback_def)

text \<open>
  C5.  When the engine object is missing or the core is not loaded, \<^verbatim>\<open>handleConvert\<close>
  only sets the not-ready feedback; when the engine is ready and no file is selected, it
  only sets the no-input feedback.  In both cases no engine call is issued (so nothing is
  written to the virtual file system), no locator is created, registered or revoked, and
  the track list is untouched.
\<close>

theorem convert_fails_fast:
  "(\<not> ffmpegRef s \<or> \<not> coreLoaded s \<longrightarrow>
      handleConvert e s =
        s\<lparr>feedback := Some \<lparr>text_msg = msg_load_ffmpeg_first, tone = error\<rparr>\<rparr>) \<and>
   (ffmpegRef s \<and> coreLoaded s \<and> file_input s = None \<longrightarrow>
      handleConvert e s = s\<lparr>feedback := Some \<lparr>text_msg = msg_select_song, tone = error\<rparr>\<rparr>) \<and>
   (\<not> ffmpegRef s \<or> \<not> coreLoaded s \<or> file_input s = None \<longrightarrow>
      engineCalls (handleConvert e s) = engineCalls s \<and>
      objectUrlsRef (handleConvert e s) = objectUrlsRef s \<and>
      urlsCreated (handleConvert e s) = urlsCreated s \<and>
      revoked (handleConvert e s) = revoked s \<and>
      tracks (handleConvert e s) = tracks s)"
  by (cases "\<not> ffmpegRef s \<or> \<not> coreLoaded s") (auto simp: handleConvert_not_run)

theorem convert_fails_fast_witness:
  "\<not> coreLoaded initial_state \<and>
   handleConvert example_env initial_state =
     initial_state\<lparr>feedback := Some \<lparr>text_msg = msg_load_ffmpeg_first, tone = error\<rparr>\<rparr> \<and>
   engineCalls (handleConvert example_env initial_state) = [] \<and>
   objectUrlsRef (handleConvert example_env initial_state) = [] \<and>
   file_input (initial_state\<lparr>coreLoaded := True\<rparr>) = None \<and>
   handleConvert example_env (initial_state\<lparr>coreLoaded := True\<rparr>) =
     initial_state\<lparr>coreLoaded := True,
                   feedback := Some \<lparr>text_msg = msg_select_song, tone = error\<rparr>\<rparr> \<and>
   engineCalls (handleConvert example_env (initial_state\<lparr>coreLoaded := True\<rparr>)) = []"
proof -
  have a: "\<not> coreLoaded initial_state" "engineCalls initial_state = []"
    "objectUrlsRef initial_state = []"
    by (simp_all add: initial_state_def)
  have b: "ffmpegRef (initial_state\<lparr>coreLoaded := True\<rparr>)"
    "coreLoaded (initial_state\<lparr>coreLoaded := True\<rparr>)"
    "file_input (initial_state\<lparr>coreLoaded := True\<rparr>) = None"
    by (simp_all add: initial_state_def)
  show ?thesis
    using a b convert_fails_fast [of initial_state example_env]
      convert_fails_fast [of "initial_state\<lparr>coreLoaded := True\<rparr>" example_env]
    by simp
qed

lemma handleConvert_frame:
  assumes "ffmpegRef s" "coreLoaded s" "file_input s = Some f"
    and "convert_try e f (baseIdentifier_of e f) (convert_start s) = (ok, s5)"
  shows "tracks (handleConvert e s) = tracks s5"
    "revoked (handleConvert e s) = revoked s5"
    "objectUrlsRef (handleConvert e s) = objectUrlsRef s5"
    "urlsCreated (handleConvert e s) = urlsCreated s5"
    "\<exists>new. engineCalls (handleConvert e s) = engineCalls s5 @ new \<and> exec_args new = []"
proof -
  let ?s6 = "if ok then s5 else setFeedback msg_convert_failed error s5"
  have h: "handleConvert e s =
             (convert_cleanup e (baseIdentifier_of e f) ?s6)\<lparr>converting := False\<rparr>"
    by (rule handleConvert_run [OF assms])
  note cf = convert_cleanup_frame [of e "baseIdentifier_of e f" ?s6]
  have s6: "tracks ?s6 = tracks s5" "revoked ?s6 = revoked s5"
    "objectUrlsRef ?s6 = objectUrlsRef s5" "urlsCreated ?s6 = urlsCreated s5"
    "engineCalls ?s6 = engineCalls s5"
    by (simp_all add: setFeedback_def)
  show "tracks (handleConvert e s) = tracks s5" using h cf s6 by simp
  show "revoked (handleConvert e s) = revoked s5" using h cf s6 by simp
  show "objectUrlsRef (handleConvert e s) = objectUrlsRef s5" using h cf s6 by simp
  show "urlsCreated (handleConvert e s) = urlsCreated s5" using h cf s6 by simp
  show "\<exists>new. engineCalls (handleConvert e s) = engineCalls s5 @ new \<and> exec_args new = []"
    using h cf s6 by simp
qed

lemma handleConvert_outcome_ready:
  assumes "feedback (handleConvert e s) = Some \<lparr>text_msg = m, tone = t\<rparr>"
    and "m = msg_convert_failed \<or> m = msg_convert_done MAX_PLAY_SECONDS"
  shows "ffmpegRef s \<and> coreLoaded s \<and> (\<exists>f. file_input s = Some f)"
proof (cases "\<not> ffmpegRef s \<or> \<not> coreLoaded s")
  case True
  then have "feedback (handleConvert e s) =
      Some \<lparr>text_msg = msg_load_ffmpeg_first, tone = error\<rparr>"
    by (simp add: handleConvert_not_run(1))
  with assms show ?thesis by auto
next
  case False
  then have rd: "ffmpegRef s" "coreLoaded s" by simp_all
  show ?thesis
  proof (cases "file_input s")
    case None
    then have "feedback (handleConvert e s) =
        Some \<lparr>text_msg = msg_select_song, tone = error\<rparr>"
      using rd by (simp add: handleConvert_not_run(2))
    with assms show ?thesis by auto
  next
    case (Some f)
    with rd show ?thesis by simp
  qed
qed

lemma filter_count_perm:
  "mset xs = mset ys \<Longrightarrow> length (filter P xs) = length (filter P ys)"
  by (metis mset_filter size_mset)

lemma digits: "string_of_nat 1700 = ''1700''" "string_of_nat 120 = ''120''"
  "string_of_nat 0 = ''0''" "string_of_nat 1 = ''1''" "string_of_nat 2 = ''2''"
  by code_simp+

lemma song_names:
  "baseFileName (Some song_wav) = ''song''" "originalExtension (Some song_wav) = ''wav''"
  by (simp_all add: song_wav_def baseFileName_def originalExtension_def lastIndexOf_def
      slice2_def slice1_def slice_index_def)

lemma ready_facts:
  "ffmpegRef ready_state" "coreLoaded ready_state" "file_input ready_state = Some song_wav"
  "urlsCreated ready_state = 0" "objectUrlsRef ready_state = []" "revoked ready_state = []"
  "engineCalls ready_state = []"
  by (simp_all add: ready_state_def initial_state_def)

lemma example_id: "baseIdentifier_of example_env song_wav = ''song_1700''"
  "baseIdentifier_of failing_env song_wav = ''song_1700''"
  by (simp_all add: baseIdentifier_of_def song_names example_env_def failing_env_def digits)

lemma example_try:
  "fst (convert_try example_env song_wav ''song_1700'' (convert_start ready_state))"
  by (simp add: convert_try_def Let_def example_env_def outputPlans_def engine_call_def
      song_names digits MAX_PLAY_SECONDS_def)

lemma failing_try:
  "\<not> fst (convert_try failing_env song_wav ''song_1700'' (convert_start ready_state))"
  "urlsCreated (snd (convert_try failing_env song_wav ''song_1700'' (convert_start ready_state)))
     = 1"
  "objectUrlsRef (snd (convert_try failing_env song_wav ''song_1700'' (convert_start ready_state)))
     = [''blob:0'']"
  by (simp_all add: convert_try_def Let_def example_env_def failing_env_def outputPlans_def
      engine_call_def song_names digits MAX_PLAY_SECONDS_def convert_start_facts set_add_def
      ready_facts)

lemma example_feedback:
  "feedback (handleConvert example_env ready_state) =
     Some \<lparr>text_msg = msg_convert_done MAX_PLAY_SECONDS, tone = success\<rparr>"
proof -
  obtain ok s5 where
    ct: "convert_try example_env song_wav (baseIdentifier_of example_env song_wav)
           (convert_start ready_state) = (ok, s5)"
    by (cases "convert_try example_env song_wav (baseIdentifier_of example_env song_wav)
           (convert_start ready_state)")
  then have ok using example_try by (simp add: example_id)
  then show ?thesis
    using handleConvert_feedback [OF ready_facts(1-3) ct] by simp
qed

lemma failing_facts:
  "feedback (handleConvert failing_env ready_state) =
     Some \<lparr>text_msg = msg_convert_failed, tone = error\<rparr>"
  "urlsCreated (handleConvert failing_env ready_state) = 1"
  "objectUrlsRef (handleConvert failing_env ready_state) = [''blob:0'']"
  "revoked (handleConvert failing_env ready_state) = []"
  "tracks (handleConvert failing_env ready_state) = []"
proof -
  obtain ok s5 where
    ct: "convert_try failing_env song_wav (baseIdentifier_of failing_env song_wav)
           (convert_start ready_state) = (ok, s5)"
    by (cases "convert_try failing_env song_wav (baseIdentifier_of failing_env song_wav)
           (convert_start ready_state)")
  then have nok: "\<not> ok" and u: "urlsCreated s5 = 1" and o: "objectUrlsRef s5 = [''blob:0'']"
    using failing_try by (simp_all add: example_id)
  from nok ct have ct': "convert_try failing_env song_wav (baseIdentifier_of failing_env song_wav)
           (convert_start ready_state) = (False, s5)"
    by simp
  note cf = convert_try_fail [OF ct']
  note fr = handleConvert_frame [OF ready_facts(1-3) ct]
  show "feedback (handleConvert failing_env ready_state) =
     Some \<lparr>text_msg = msg_convert_failed, tone = error\<rparr>"
    using nok handleConvert_feedback [OF ready_facts(1-3) ct] by simp
  show "urlsCreated (handleConvert failing_env ready_state) = 1"
    using fr u by simp
  show "objectUrlsRef (handleConvert failing_env ready_state) = [''blob:0'']"
    using fr o by simp
  show "revoked (handleConvert failing_env ready_state) = []"
    using fr cf by (simp add: convert_start_facts ready_facts)
  show "tracks (handleConvert failing_env ready_state) = []"
    using fr cf by (simp add: convert_start_facts)
qed

text \<open>
  C4.  When \<^verbatim>\<open>handleConvert\<close> ends with the success feedback, and the sort inside
  \<^verbatim>\<open>shuffle\<close> returns a permutation of its input, the track list has exactly three
  tracks, exactly one of each quality, and the id of each track is the session
  identifier (base name, underscore, timestamp) followed by a hyphen and the name of its
  quality.
\<close>

theorem convert_success_track_set:
  assumes "feedback (handleConvert e s) =
             Some \<lparr>text_msg = msg_convert_done MAX_PLAY_SECONDS, tone = success\<rparr>"
    and "\<forall>xs. mset (sort_random e xs) = mset xs"
  shows "length (tracks (handleConvert e s)) = 3 \<and>
         (\<forall>q. length (filter (\<lambda>t. quality t = q) (tracks (handleConvert e s))) = 1) \<and>
         (\<exists>f. file_input s = Some f \<and>
            (\<forall>t \<in> set (tracks (handleConvert e s)).
               id_track t = baseIdentifier_of e f @ ''-'' @ quality_name (quality t)))"
proof -
  from handleConvert_outcome_ready [OF assms(1)] obtain f where
    rd: "ffmpegRef s" "coreLoaded s" "file_input s = Some f"
    by auto
  obtain ok s5 where ct: "convert_try e f (baseIdentifier_of e f) (convert_start s) = (ok, s5)"
    by (cases "convert_try e f (baseIdentifier_of e f) (convert_start s)")
  have ok: ok
    using handleConvert_feedback [OF rd ct] assms(1) by (cases ok) simp_all
  from convert_try_ok [OF ct [unfolded eqTrueI [OF ok]]] obtain prep where
    tr: "tracks s5 = shuffle e prep" and
    q: "map quality prep = [mp3_128, mp3_320, original]" and
    i: "map id_track prep = map (createTrackId (baseIdentifier_of e f)) [mp3_128, mp3_320, original]"
    by auto
  have trk: "tracks (handleConvert e s) = sort_random e prep"
    using handleConvert_frame(1) [OF rd ct] tr by (simp add: shuffle_def)
  have ms: "mset (tracks (handleConvert e s)) = mset prep"
    using trk assms(2) by simp
  from q obtain t1 t2 t3 where p: "prep = [t1, t2, t3]"
    "quality t1 = mp3_128" "quality t2 = mp3_320" "quality t3 = original"
    by (auto simp: map_eq_Cons_conv)
  have len: "length (tracks (handleConvert e s)) = 3"
    using ms p(1) by (metis length_Cons list.size(3) numeral_3_eq_3 size_mset)
  have once: "length (filter (\<lambda>t. quality t = q') (tracks (handleConvert e s))) = 1" for q'
    unfolding filter_count_perm [OF ms] using p by (cases q') simp_all
  have ids: "id_track t = baseIdentifier_of e f @ ''-'' @ quality_name (quality t)"
    if "t \<in> set (tracks (handleConvert e s))" for t
  proof -
    from that have "t \<in> set prep"
      using ms by (metis set_mset_mset)
    then show ?thesis
      using p i by (auto simp: createTrackId_def)
  qed
  show ?thesis
    using len once ids rd(3) by blast
qed

theorem convert_success_track_set_witness:
  "feedback (handleConvert example_env ready_state) =
     Some \<lparr>text_msg = msg_convert_done MAX_PLAY_SECONDS, tone = success\<rparr> \<and>
   (\<forall>xs. mset (sort_random example_env xs) = mset xs) \<and>
   length (tracks (handleConvert example_env ready_state)) = 3 \<and>
   length (filter (\<lambda>t. quality t = mp3_320) (tracks (handleConvert example_env ready_state))) = 1 \<and>
   list_all (\<lambda>t. id_track t = ''song_1700-'' @ quality_name (quality t))
     (tracks (handleConvert example_env ready_state))"
proof -
  have p: "\<forall>xs. mset (sort_random example_env xs) = mset xs"
    by (simp add: example_env_def)
  show ?thesis
    using example_feedback p convert_success_track_set [OF example_feedback p]
    by (simp add: ready_facts example_id list_all_iff)
qed

lemma run_plans_throws:
  assumes "\<forall>q \<in> set done. step_completes e q" and "\<not> step_completes e p"
  shows "\<exists>s'. run_plans e b (done @ p # rest) prep s = (None, s') \<and>
              urlsCreated s' = urlsCreated s + length done"
  using assms(1)
proof (induction "done" arbitrary: prep s)
  case Nil
  show ?case
    using assms(2)
    by (auto simp: step_completes_def plan_args_def Let_def engine_call_def)
next
  case (Cons q qs)
  then have q: "exec e (command q @ [outputName q]) \<noteq> None" "readFile e (outputName q)"
    and qs: "\<forall>x \<in> set qs. step_completes e x"
    by (simp_all add: step_completes_def plan_args_def)
  let ?s3 = "s\<lparr>engineCalls := engineCalls s @ [Exec (command q @ [outputName q])] @
                   [ReadFile (outputName q)],
               urlsCreated := urlsCreated s + 1,
               objectUrlsRef := set_add (createObjectURL e (urlsCreated s)) (objectUrlsRef s)\<rparr>"
  let ?t = "\<lparr>id_track = createTrackId b (plan_quality q), quality = plan_quality q,
             fileName = outputName q, url = createObjectURL e (urlsCreated s)\<rparr>"
  have unf: "run_plans e b ((q # qs) @ p # rest) prep s =
             run_plans e b (qs @ p # rest) (prep @ [?t]) ?s3"
    using q by (auto simp: Let_def engine_call_def)
  from Cons.IH [OF qs, of "prep @ [?t]" ?s3] obtain s' where
    "run_plans e b (qs @ p # rest) (prep @ [?t]) ?s3 = (None, s')"
    "urlsCreated s' = urlsCreated ?s3 + length qs"
    by blast
  then show ?case
    unfolding unf by simp
qed

lemma run_plans_completes:
  assumes "\<forall>q \<in> set ps. step_completes e q"
  shows "fst (run_plans e b ps prep s) \<noteq> None"
  using assms
proof (induction ps arbitrary: prep s)
  case Nil
  then show ?case by simp
next
  case (Cons q qs)
  then have q: "exec e (command q @ [outputName q]) \<noteq> None" "readFile e (outputName q)"
    and qs: "\<forall>x \<in> set qs. step_completes e x"
    by (simp_all add: step_completes_def plan_args_def)
  show ?case
    using q Cons.IH [OF qs] by (auto simp: Let_def)
qed

lemma convert_try_throws:
  assumes "fetchFile e"
    and "writeFile e (b @ ''_input.'' @ originalExtension (Some f))"
    and "outputPlans b (b @ ''_input.'' @ originalExtension (Some f)) f = done @ p # rest"
    and "\<forall>q \<in> set done. step_completes e q" and "\<not> step_completes e p"
  shows "\<exists>s'. convert_try e f b s = (False, s') \<and>
              urlsCreated s' = urlsCreated s + length done \<and>
              (\<exists>new. engineCalls s' = engineCalls s @ new \<and>
                     exec_args new = map plan_args (done @ [p]))"
proof -
  let ?i = "b @ ''_input.'' @ originalExtension (Some f)"
  let ?s1 = "engine_call (WriteFile ?i) s"
  from run_plans_throws [OF assms(4,5), of b rest "[]" ?s1] obtain s' where
    rp: "run_plans e b (done @ p # rest) [] ?s1 = (None, s')" and
    u: "urlsCreated s' = urlsCreated ?s1 + length done"
    by blast
  have ct: "convert_try e f b s = (False, s')"
    using assms(1,2,3) rp by (simp add: convert_try_def Let_def)
  from run_plans_execs [OF rp] obtain new where
    n1: "engineCalls s' = engineCalls ?s1 @ new" and
    n2: "exec_args new =
           map plan_args (take (urlsCreated s' - urlsCreated ?s1 + 1) (done @ p # rest))"
    by auto
  have n3: "exec_args new = map plan_args (done @ [p])"
    using n2 u by simp
  have "engineCalls s' = engineCalls s @ (WriteFile ?i # new)"
    using n1 by (simp add: engine_call_def)
  moreover have "exec_args (WriteFile ?i # new) = map plan_args (done @ [p])"
    using n3 by simp
  ultimately have "\<exists>new. engineCalls s' = engineCalls s @ new \<and>
      exec_args new = map plan_args (done @ [p])"
    by blast
  with ct u show ?thesis
    by (auto simp: engine_call_def)
qed

lemma run_plans_zero_exit: "run_plans (zero_exit e) b ps prep s = run_plans e b ps prep s"
  by (induction ps arbitrary: prep s) (simp_all add: zero_exit_def Let_def)

lemma zero_exit_fields:
  "date_now (zero_exit e) = date_now e" "fetchFile (zero_exit e) = fetchFile e"
  "writeFile (zero_exit e) = writeFile e" "readFile (zero_exit e) = readFile e"
  "createObjectURL (zero_exit e) = createObjectURL e" "listDir (zero_exit e) = listDir e"
  "sort_random (zero_exit e) = sort_random e"
  by (simp_all add: zero_exit_def)

lemma handleConvert_zero_exit: "handleConvert (zero_exit e) s = handleConvert e s"
proof -
  have ct: "convert_try (zero_exit e) f b s' = convert_try e f b s'" for f b s'
    by (simp add: convert_try_def Let_def run_plans_zero_exit shuffle_def zero_exit_fields
        split: prod.splits option.splits)
  have cc: "convert_cleanup (zero_exit e) b s' = convert_cleanup e b s'" for b s'
    by (simp add: convert_cleanup_def Let_def zero_exit_fields split: option.splits)
  show ?thesis
    by (simp add: handleConvert_def Let_def ct cc zero_exit_fields
        split: prod.splits option.splits)
qed

lemma unreadable_id: "baseIdentifier_of unreadable_env song_wav = ''song_1700''"
  by (simp add: baseIdentifier_of_def song_names example_env_def unreadable_env_def digits)

lemma sample_plans:
  "session_plans failing_env song_wav =
     outputPlans ''song_1700'' ''song_1700_input.wav'' song_wav"
  "session_plans unreadable_env song_wav =
     outputPlans ''song_1700'' ''song_1700_input.wav'' song_wav"
  by (simp_all add: session_plans_def example_id unreadable_id song_names)

lemma sample_steps:
  "length (outputPlans ''song_1700'' ''song_1700_input.wav'' song_wav) = 3"
  "list_all (step_completes failing_env)
     (take 1 (outputPlans ''song_1700'' ''song_1700_input.wav'' song_wav))"
  "\<not> step_completes failing_env
       (outputPlans ''song_1700'' ''song_1700_input.wav'' song_wav ! 1)"
  "list_all (step_completes unreadable_env)
     (take 1 (outputPlans ''song_1700'' ''song_1700_input.wav'' song_wav))"
  "\<not> step_completes unreadable_env
       (outputPlans ''song_1700'' ''song_1700_input.wav'' song_wav ! 1)"
  "exec unreadable_env
     (plan_args (outputPlans ''song_1700'' ''song_1700_input.wav'' song_wav ! 0)) = Some 1"
  "step_completes failing_env
     (outputPlans ''song_1700'' ''song_1700_input.wav'' song_wav ! 0)"
  by (simp_all add: outputPlans_def step_completes_def plan_args_def failing_env_def
      unreadable_env_def example_env_def song_names digits MAX_PLAY_SECONDS_def)

lemma sample_io:
  "fetchFile failing_env" "writeFile failing_env n"
  "fetchFile unreadable_env" "writeFile unreadable_env n"
  by (simp_all add: failing_env_def unreadable_env_def example_env_def)

text \<open>
  C1, as the code has it.  Suppose the engine is ready, a file is selected, the input is
  fetched and written, the first \<open>k\<close> plans complete (\<open>k\<close> at least one), and the step
  of plan \<open>k\<close> throws: its \<^verbatim>\<open>exec\<close> rejects or its output cannot be read back.
  Suppose also that \<^verbatim>\<open>URL.createObjectURL\<close> hands out locators that were never
  registered or revoked before.  Then \<^verbatim>\<open>handleConvert\<close> ends with the
  transcode-failure feedback and an empty track list, and the engine was asked to execute
  the plans up to and including the failing one and no later plan.  The run created
  \<open>k\<close> locators and revoked exactly the locators that were registered before it.  The
  locators it created are the members of the ledger afterwards and none of them has been
  revoked; the next \<^verbatim>\<open>revokeTrackUrls\<close> (at the next conversion or at teardown)
  revokes them and empties the ledger.  The exit code \<^verbatim>\<open>exec\<close> resolves with plays
  no part: a step whose \<^verbatim>\<open>exec\<close> resolves with a non-zero code and whose output can
  be read back is a completed step.
\<close>

theorem convert_failure_keeps_ledger:
  assumes "ffmpegRef s" and "coreLoaded s" and "file_input s = Some f"
    and "fetchFile e"
    and "writeFile e (baseIdentifier_of e f @ ''_input.'' @ originalExtension (Some f))"
    and "0 < k" and "k < length (session_plans e f)"
    and "\<forall>q \<in> set (take k (session_plans e f)). step_completes e q"
    and "\<not> step_completes e (session_plans e f ! k)"
    and "\<forall>n. urlsCreated s \<le> n \<longrightarrow>
           createObjectURL e n \<notin> set (revoked s) \<union> set (objectUrlsRef s)"
  shows "feedback (handleConvert e s) =
           Some \<lparr>text_msg = msg_convert_failed, tone = error\<rparr> \<and>
         tracks (handleConvert e s) = [] \<and>
         (\<exists>new. engineCalls (handleConvert e s) = engineCalls s @ new \<and>
            exec_args new = map plan_args (take (Suc k) (session_plans e f))) \<and>
         urlsCreated (handleConvert e s) = urlsCreated s + k \<and>
         revoked (handleConvert e s) = revoked s @ objectUrlsRef s \<and>
         set (objectUrlsRef (handleConvert e s)) =
           createObjectURL e ` {urlsCreated s ..< urlsCreated s + k} \<and>
         objectUrlsRef (handleConvert e s) \<noteq> [] \<and>
         (\<forall>u \<in> set (objectUrlsRef (handleConvert e s)).
            u \<notin> set (revoked (handleConvert e s))) \<and>
         revoked (revokeTrackUrls (handleConvert e s)) =
           revoked s @ objectUrlsRef s @ objectUrlsRef (handleConvert e s) \<and>
         objectUrlsRef (revokeTrackUrls (handleConvert e s)) = [] \<and>
         handleConvert (zero_exit e) s = handleConvert e s"
proof -
  let ?s' = "handleConvert e s"
  let ?b = "baseIdentifier_of e f"
  let ?ps = "session_plans e f"
  have split: "outputPlans ?b (?b @ ''_input.'' @ originalExtension (Some f)) f =
               take k ?ps @ ?ps ! k # drop (Suc k) ?ps"
    using id_take_nth_drop [OF assms(7)] by (simp add: session_plans_def)
  have lk: "length (take k ?ps) = k"
    using assms(7) by simp
  from convert_try_throws [OF assms(4,5) split assms(8,9), of "convert_start s"]
  obtain s5 new where
    ct: "convert_try e f ?b (convert_start s) = (False, s5)" and
    u5: "urlsCreated s5 = urlsCreated (convert_start s) + length (take k ?ps)" and
    n1: "engineCalls s5 = engineCalls (convert_start s) @ new" and
    n2: "exec_args new = map plan_args (take k ?ps @ [?ps ! k])"
    by auto
  note rd = assms(1-3)
  note cf = convert_try_fail [OF ct]
  note fr = handleConvert_frame [OF rd ct]
  have fb: "feedback ?s' = Some \<lparr>text_msg = msg_convert_failed, tone = error\<rparr>"
    using handleConvert_feedback [OF rd ct] by simp
  have t: "tracks ?s' = []"
    using fr(1) cf by (simp add: convert_start_facts)
  have r: "revoked ?s' = revoked s @ objectUrlsRef s"
    using fr(2) cf by (simp add: convert_start_facts)
  have u: "urlsCreated ?s' = urlsCreated s + k"
    using fr(4) u5 lk by (simp add: convert_start_facts)
  have o: "set (objectUrlsRef ?s') = createObjectURL e ` {urlsCreated s ..< urlsCreated s + k}"
    using fr(3,4) u cf by (simp add: convert_start_facts)
  have ne: "objectUrlsRef ?s' \<noteq> []"
  proof
    assume "objectUrlsRef ?s' = []"
    then have "createObjectURL e ` {urlsCreated s ..< urlsCreated s + k} = {}"
      using o by simp
    then show False using assms(6) by simp
  qed
  have nr: "u' \<notin> set (revoked ?s')" if "u' \<in> set (objectUrlsRef ?s')" for u'
  proof -
    from that o obtain n where "urlsCreated s \<le> n" "u' = createObjectURL e n"
      by auto
    then show ?thesis
      using assms(10) r by auto
  qed
  from fr(5) obtain new' where
    m1: "engineCalls ?s' = engineCalls s5 @ new'" and m2: "exec_args new' = []"
    by auto
  have tk: "take k ?ps @ [?ps ! k] = take (Suc k) ?ps"
    using assms(7) by (simp add: take_Suc_conv_app_nth)
  have e1: "engineCalls ?s' = engineCalls s @ (new @ new')"
    using n1 m1 by (simp add: convert_start_facts)
  have e2: "exec_args (new @ new') = map plan_args (take (Suc k) ?ps)"
    using n2 m2 tk by (simp add: exec_args_append)
  have ex: "\<exists>new. engineCalls ?s' = engineCalls s @ new \<and>
      exec_args new = map plan_args (take (Suc k) ?ps)"
    using e1 e2 by blast
  have rv: "revoked (revokeTrackUrls ?s') = revoked s @ objectUrlsRef s @ objectUrlsRef ?s'"
    "objectUrlsRef (revokeTrackUrls ?s') = []"
    using r by (simp_all add: revokeTrackUrls_eq)
  show ?thesis
    using fb t ex u r o ne nr rv handleConvert_zero_exit [of e s] by simp
qed

theorem convert_failure_keeps_ledger_witness:
  "ffmpegRef ready_state \<and> coreLoaded ready_state \<and> file_input ready_state = Some song_wav \<and>
   fetchFile unreadable_env \<and> writeFile unreadable_env ''song_1700_input.wav'' \<and>
   (1::nat) < length (session_plans unreadable_env song_wav) \<and>
   list_all (step_completes unreadable_env) (take 1 (session_plans unreadable_env song_wav)) \<and>
   \<not> step_completes unreadable_env (session_plans unreadable_env song_wav ! 1) \<and>
   exec unreadable_env (plan_args (session_plans unreadable_env song_wav ! 0)) = Some 1 \<and>
   revoked ready_state = [] \<and> objectUrlsRef ready_state = [] \<and>
   feedback (handleConvert unreadable_env ready_state) =
     Some \<lparr>text_msg = msg_convert_failed, tone = error\<rparr> \<and>
   tracks (handleConvert unreadable_env ready_state) = [] \<and>
   urlsCreated (handleConvert unreadable_env ready_state) = 1 \<and>
   revoked (handleConvert unreadable_env ready_state) = [] \<and>
   objectUrlsRef (handleConvert unreadable_env ready_state) \<noteq> [] \<and>
   feedback (handleConvert failing_env ready_state) =
     Some \<lparr>text_msg = msg_convert_failed, tone = error\<rparr> \<and>
   objectUrlsRef (handleConvert failing_env ready_state) \<noteq> []"
proof -
  have w1: "writeFile unreadable_env
      (baseIdentifier_of unreadable_env song_wav @ ''_input.'' @ originalExtension (Some song_wav))"
    and w2: "writeFile failing_env
      (baseIdentifier_of failing_env song_wav @ ''_input.'' @ originalExtension (Some song_wav))"
    by (rule sample_io)+
  have k0: "0 < (1::nat)" by simp
  have k1: "1 < length (session_plans unreadable_env song_wav)"
    and k2: "1 < length (session_plans failing_env song_wav)"
    by (simp_all add: sample_plans sample_steps(1))
  have c1: "\<forall>q \<in> set (take 1 (session_plans unreadable_env song_wav)).
              step_completes unreadable_env q"
    and c2: "\<forall>q \<in> set (take 1 (session_plans failing_env song_wav)).
              step_completes failing_env q"
    using sample_steps(2,4) by (simp_all add: sample_plans list_all_iff)
  have n1: "\<not> step_completes unreadable_env (session_plans unreadable_env song_wav ! 1)"
    and n2: "\<not> step_completes failing_env (session_plans failing_env song_wav ! 1)"
    using sample_steps(3,5) by (simp_all add: sample_plans)
  have fr1: "\<forall>n. urlsCreated ready_state \<le> n \<longrightarrow>
      createObjectURL unreadable_env n \<notin> set (revoked ready_state) \<union> set (objectUrlsRef ready_state)"
    and fr2: "\<forall>n. urlsCreated ready_state \<le> n \<longrightarrow>
      createObjectURL failing_env n \<notin> set (revoked ready_state) \<union> set (objectUrlsRef ready_state)"
    by (simp_all add: ready_facts)
  note a = convert_failure_keeps_ledger
             [OF ready_facts(1-3) sample_io(3) w1 k0 k1 c1 n1 fr1]
  note b = convert_failure_keeps_ledger
             [OF ready_facts(1-3) sample_io(1) w2 k0 k2 c2 n2 fr2]
  have x1: "exec unreadable_env (plan_args (session_plans unreadable_env song_wav ! 0)) = Some 1"
    using sample_steps(6) by (simp add: sample_plans)
  show ?thesis
    using a b k1 c1 n1 x1 by (simp add: ready_facts sample_io list_all_iff)
qed

lemma failing_url: "createObjectURL failing_env 0 = ''blob:0''"
  by (simp add: failing_env_def example_env_def digits)

text \<open>
  The claim C1 as stated fails when the step of the second plan throws after the first
  has completed: the run reports the transcode failure, yet the locator it created for
  the first track is still in the ledger and has not been revoked.
\<close>

theorem convert_failure_discard_counterexample:
  "step_completes failing_env (session_plans failing_env song_wav ! 0) \<and>
   \<not> step_completes failing_env (session_plans failing_env song_wav ! 1) \<and>
   feedback (handleConvert failing_env ready_state) =
     Some \<lparr>text_msg = msg_convert_failed, tone = error\<rparr> \<and>
   urlsCreated ready_state = 0 \<and>
   urlsCreated (handleConvert failing_env ready_state) = 1 \<and>
   createObjectURL failing_env 0 = ''blob:0'' \<and>
   ''blob:0'' \<in> set (objectUrlsRef (handleConvert failing_env ready_state)) \<and>
   ''blob:0'' \<notin> set (revoked (handleConvert failing_env ready_state))"
  using sample_steps(3,7)
  by (simp add: failing_facts ready_facts failing_url sample_plans)

end
